theory Spec2Isabelle
  imports Main
begin

section \<open>Go strings\<close>

text \<open>
  A Go \<^verbatim>\<open>string\<close> is a sequence of bytes; \<^typ>\<open>string\<close> is a list of 8-bit
  characters, so the two coincide.  The functions below are the ones of package
  \<^verbatim>\<open>strings\<close> that \<^verbatim>\<open>main.go\<close> calls.
\<close>

text \<open>\<^verbatim>\<open>strings.HasPrefix(s, prefix)\<close>:
  \<^verbatim>\<open>len(s) >= len(prefix) && s[:len(prefix)] == prefix\<close>.\<close>

definition HasPrefix :: "string \<Rightarrow> string \<Rightarrow> bool" where
  "HasPrefix s pre = (length pre \<le> length s \<and> take (length pre) s = pre)"

text \<open>\<^verbatim>\<open>strings.TrimPrefix(s, prefix)\<close>: \<^verbatim>\<open>s\<close> without the leading
  \<^verbatim>\<open>prefix\<close>; \<^verbatim>\<open>s\<close> itself when it does not start with it.\<close>

definition TrimPrefix :: "string \<Rightarrow> string \<Rightarrow> string" where
  "TrimPrefix s pre = (if HasPrefix s pre then drop (length pre) s else s)"

text \<open>\<^verbatim>\<open>strings.Split(s, sep)\<close> for a separator of one byte (the only call is
  \<^verbatim>\<open>strings.Split(_, "\n")\<close>).  The result is never empty: the empty string
  splits into one empty piece.\<close>

fun Split :: "string \<Rightarrow> char \<Rightarrow> string list" where
  "Split [] sep = [[]]"
| "Split (c # cs) sep =
     (if c = sep then [] # Split cs sep
      else (case Split cs sep of
              [] \<Rightarrow> [[c]]
            | l # ls \<Rightarrow> (c # l) # ls))"

text \<open>
  \<^verbatim>\<open>strings.TrimSpace\<close> removes leading and trailing white space as
  \<^verbatim>\<open>unicode.IsSpace\<close> defines it: the six ASCII characters tab, line feed, vertical
  tab, form feed, carriage return and space, and the code points U+0085, U+00A0, U+1680,
  U+2000 to U+200A, U+2028, U+2029, U+202F, U+205F and U+3000, which a Go string holds in
  their UTF-8 encoding.
\<close>

definition asciiSpace :: "char \<Rightarrow> bool" where
  "asciiSpace c =
     (c = CHR 0x09 \<or> c = CHR 0x0A \<or> c = CHR 0x0B \<or> c = CHR 0x0C \<or> c = CHR 0x0D \<or> c = CHR 0x20)"

definition unicodeSpaces :: "string list" where
  "unicodeSpaces =
     [[CHR 0xC2, CHR 0x85], [CHR 0xC2, CHR 0xA0], [CHR 0xE1, CHR 0x9A, CHR 0x80],
      [CHR 0xE2, CHR 0x80, CHR 0x80], [CHR 0xE2, CHR 0x80, CHR 0x81],
      [CHR 0xE2, CHR 0x80, CHR 0x82], [CHR 0xE2, CHR 0x80, CHR 0x83],
      [CHR 0xE2, CHR 0x80, CHR 0x84], [CHR 0xE2, CHR 0x80, CHR 0x85],
      [CHR 0xE2, CHR 0x80, CHR 0x86], [CHR 0xE2, CHR 0x80, CHR 0x87],
      [CHR 0xE2, CHR 0x80, CHR 0x88], [CHR 0xE2, CHR 0x80, CHR 0x89],
      [CHR 0xE2, CHR 0x80, CHR 0x8A], [CHR 0xE2, CHR 0x80, CHR 0xA8],
      [CHR 0xE2, CHR 0x80, CHR 0xA9], [CHR 0xE2, CHR 0x80, CHR 0xAF],
      [CHR 0xE2, CHR 0x81, CHR 0x9F], [CHR 0xE3, CHR 0x80, CHR 0x80]]"

text \<open>The number of bytes of the white-space character that \<open>s\<close> starts with (as
  encoded in \<open>tbl\<close> when it is not ASCII); 0 when \<open>s\<close> starts with none.\<close>

definition spaceWidth :: "string list \<Rightarrow> string \<Rightarrow> nat" where
  "spaceWidth tbl s =
     (case s of
        [] \<Rightarrow> 0
      | c # cs \<Rightarrow>
          if asciiSpace c then 1
          else (case find (HasPrefix s) tbl of
                  None \<Rightarrow> 0
                | Some u \<Rightarrow> length u))"

lemma spaceWidth_le: "spaceWidth tbl s \<le> length s"
proof (cases s)
  case Nil
  then show ?thesis by (simp add: spaceWidth_def)
next
  case (Cons c cs)
  show ?thesis
  proof (cases "find (HasPrefix s) tbl")
    case None
    with Cons show ?thesis by (simp add: spaceWidth_def)
  next
    case (Some u)
    then have "HasPrefix s u" by (auto simp: find_Some_iff)
    then have "length u \<le> length s" by (simp add: HasPrefix_def)
    with Cons Some show ?thesis by (simp add: spaceWidth_def)
  qed
qed

function trimLeft :: "string list \<Rightarrow> string \<Rightarrow> string" where
  "trimLeft tbl s = (if spaceWidth tbl s = 0 then s else trimLeft tbl (drop (spaceWidth tbl s) s))"
  by pat_completeness auto
termination
proof (relation "measure (\<lambda>(tbl, s). length s)")
  show "wf (measure (\<lambda>(tbl, s). length s))" by simp
next
  fix tbl :: "string list" and s :: string
  assume "spaceWidth tbl s \<noteq> 0"
  moreover have "spaceWidth tbl s \<le> length s" by (rule spaceWidth_le)
  ultimately show "((tbl, drop (spaceWidth tbl s) s), (tbl, s)) \<in> measure (\<lambda>(tbl, s). length s)"
    by simp
qed

declare trimLeft.simps [simp del]

text \<open>Trailing white space is the leading white space of the reversed string, each
  multi-byte encoding reversed.\<close>

definition TrimSpace :: "string \<Rightarrow> string" where
  "TrimSpace s = rev (trimLeft (map rev unicodeSpaces) (rev (trimLeft unicodeSpaces s)))"

section \<open>The entry model\<close>

text \<open>
  \<^verbatim>\<open>type Section struct { Name string; Changes []string }\<close>.  The field
  \<^verbatim>\<open>Changes\<close> of a section is named \<open>SectionChanges\<close> here, since
  \<^verbatim>\<open>ChangelogEntry\<close> has a field \<^verbatim>\<open>Changes\<close> too.
\<close>

record Section =
  Name :: string
  SectionChanges :: "string list"

text \<open>
  A \<^verbatim>\<open>time.Time\<close>, by its civil fields and the offset of its zone in seconds east
  of UTC.  \<open>zeroTime\<close> is the zero value \<^verbatim>\<open>time.Time{}\<close>: January 1 of year 1,
  00:00:00 UTC.
\<close>

record Time =
  year :: int
  month :: int
  day :: int
  hour :: int
  minute :: int
  second :: int
  nanosecond :: int
  zoneOffset :: int

definition zeroTime :: Time where
  "zeroTime = \<lparr>year = 1, month = 1, day = 1, hour = 0, minute = 0, second = 0,
                nanosecond = 0, zoneOffset = 0\<rparr>"

record ChangelogEntry =
  Version :: string
  ReleasedAt :: Time
  Source :: string
  Sections :: "Section list"
  Changes :: "string list"

section \<open>The hierarchical release-body parser\<close>

text \<open>
  \<^verbatim>\<open>headerRegex := regexp.MustCompile(`^#{1,3}\s+(.+)$`)\<close>, and on it
  \<^verbatim>\<open>FindStringSubmatch\<close>: \<open>None\<close> for \<^verbatim>\<open>nil\<close>, else the whole
  match and the text of group 1.  Without flags \<^verbatim>\<open>^\<close> and \<^verbatim>\<open>$\<close> match
  at the two ends of the text only, \<^verbatim>\<open>\s\<close> is one of tab, line feed, form feed,
  carriage return and space (not vertical tab), and \<^verbatim>\<open>.\<close> is any character but
  line feed.  So the text is one to three \<^verbatim>\<open>#\<close> (a fourth one is no white
  space, so four or more never match), a run of white space, and the rest up to the end;
  the greedy \<^verbatim>\<open>\s+\<close> takes all of the run unless nothing would be left for
  \<^verbatim>\<open>.+\<close>, which then takes the run's last character.
\<close>

definition reSpace :: "char \<Rightarrow> bool" where
  "reSpace c = (c = CHR 0x09 \<or> c = CHR 0x0A \<or> c = CHR 0x0C \<or> c = CHR 0x0D \<or> c = CHR 0x20)"

definition headerRegex_FindStringSubmatch :: "string \<Rightarrow> string list option" where
  "headerRegex_FindStringSubmatch s =
     (let hashes = takeWhile (\<lambda>c. c = CHR ''#'') s;
          r = dropWhile (\<lambda>c. c = CHR ''#'') s;
          w = takeWhile reSpace r;
          rest = dropWhile reSpace r
      in if length hashes < 1 \<or> 3 < length hashes \<or> w = [] then None
         else if rest = [] then
           (if 2 \<le> length w \<and> last w \<noteq> CHR 0x0A then Some [s, [last w]] else None)
         else if CHR 0x0A \<in> set rest then None
         else Some [s, rest])"

text \<open>The state of the loop of \<^verbatim>\<open>parseReleaseBody\<close>: its three variables.
  \<^verbatim>\<open>currentSection\<close> is a pointer, \<^verbatim>\<open>nil\<close> at first.\<close>

record scan =
  sections :: "Section list"
  ungroupedChanges :: "string list"
  currentSection :: "Section option"

definition scan0 :: scan where
  "scan0 = \<lparr>sections = [], ungroupedChanges = [], currentSection = None\<rparr>"

text \<open>\<^verbatim>\<open>if currentSection != nil && len(currentSection.Changes) > 0
  { sections = append(sections, *currentSection) }\<close>, which the function does at a header
  and after the loop.\<close>

definition flush :: "scan \<Rightarrow> Section list" where
  "flush st =
     (case currentSection st of
        None \<Rightarrow> sections st
      | Some cur \<Rightarrow>
          if 0 < length (SectionChanges cur) then sections st @ [cur] else sections st)"

text \<open>One turn of the loop, on one line.\<close>

definition parseLine :: "scan \<Rightarrow> string \<Rightarrow> scan" where
  "parseLine st line =
     (let trimmed = TrimSpace line in
      case headerRegex_FindStringSubmatch trimmed of
        Some match \<Rightarrow>
          (let headerName = TrimSpace (match ! 1) in
           if headerName = ''What's Changed'' then st
           else st\<lparr>sections := flush st,
                   currentSection := Some \<lparr>Name = headerName, SectionChanges = []\<rparr>\<rparr>)
      | None \<Rightarrow>
          if HasPrefix trimmed ''- '' \<or> HasPrefix trimmed ''* '' then
            (let change = TrimPrefix (TrimPrefix trimmed ''- '') ''* '' in
             if change \<noteq> [] \<and> \<not> HasPrefix change ''@'' then
               (case currentSection st of
                  Some cur \<Rightarrow>
                    st\<lparr>currentSection :=
                         Some (cur\<lparr>SectionChanges := SectionChanges cur @ [change]\<rparr>)\<rparr>
                | None \<Rightarrow> st\<lparr>ungroupedChanges := ungroupedChanges st @ [change]\<rparr>)
             else st)
          else st)"

text \<open>The loop over the lines, then the flush of the last section.\<close>

definition parseLines :: "string list \<Rightarrow> Section list \<times> string list" where
  "parseLines ls = (let st = foldl parseLine scan0 ls in (flush st, ungroupedChanges st))"

definition parseReleaseBody :: "string \<Rightarrow> Section list \<times> string list" where
  "parseReleaseBody body = parseLines (Split body CHR 0x0A)"

text \<open>The header text of a line as the loop computes it (\<^verbatim>\<open>headerName\<close>), when
  the line is a header.\<close>

definition headerOf :: "string \<Rightarrow> string option" where
  "headerOf line =
     (case headerRegex_FindStringSubmatch (TrimSpace line) of
        None \<Rightarrow> None
      | Some match \<Rightarrow> Some (TrimSpace (match ! 1)))"

section \<open>Panics, indexing and slicing\<close>

text \<open>
  An index out of range and a slice with bad bounds panic in Go; here they are values.
  \<open>index xs i\<close> is \<^verbatim>\<open>xs[i]\<close> and \<open>slice s lo hi\<close> is
  \<^verbatim>\<open>s[lo:hi]\<close>.
\<close>

datatype panic = IndexOutOfRange | SliceBoundsOutOfRange

definition bindE :: "panic + 'a \<Rightarrow> ('a \<Rightarrow> panic + 'b) \<Rightarrow> panic + 'b" where
  "bindE r f = (case r of Inl e \<Rightarrow> Inl e | Inr x \<Rightarrow> f x)"

definition index :: "'a list \<Rightarrow> int \<Rightarrow> panic + 'a" where
  "index xs i =
     (if 0 \<le> i \<and> i < int (length xs) then Inr (xs ! nat i) else Inl IndexOutOfRange)"

definition slice :: "string \<Rightarrow> int \<Rightarrow> int \<Rightarrow> panic + string" where
  "slice s lo hi =
     (if 0 \<le> lo \<and> lo \<le> hi \<and> hi \<le> int (length s)
      then Inr (take (nat (hi - lo)) (drop (nat lo) s))
      else Inl SliceBoundsOutOfRange)"

section \<open>The version-anchored flat parser\<close>

text \<open>\<^verbatim>\<open>parseChanges\<close>: one turn of its loop, and the loop over the lines.\<close>

definition parseChanges_line :: "string list \<Rightarrow> string \<Rightarrow> string list" where
  "parseChanges_line changes line =
     (let trimmed = TrimSpace line in
      if HasPrefix trimmed ''- '' then changes @ [TrimPrefix trimmed ''- ''] else changes)"

definition parseChanges :: "string \<Rightarrow> string list" where
  "parseChanges content = foldl parseChanges_line [] (Split content CHR 0x0A)"

text \<open>
  A compiled regular expression (the value of \<^verbatim>\<open>regexp.MustCompile(versionPattern)\<close>)
  is represented by what \<^verbatim>\<open>FindAllStringSubmatchIndex(content, -1)\<close> returns on
  it: for each match, in order, the list of the start and end positions of the whole match
  and of each group, \<open>-1\<close> twice for a group that took no part.
\<close>

type_synonym Regexp = "string \<Rightarrow> int list list"

text \<open>The body of the loop of \<^verbatim>\<open>parseMarkdownChangelog\<close> for the match
  \<open>match\<close>, where \<open>rest\<close> are the matches after it
  (\<^verbatim>\<open>matches[i+1:]\<close>).\<close>

definition parseMarkdownChangelog_entry ::
    "string \<Rightarrow> int list \<Rightarrow> int list list \<Rightarrow> panic + ChangelogEntry" where
  "parseMarkdownChangelog_entry content match rest =
     bindE (index match 1) (\<lambda>versionEnd.
     bindE (index match 2) (\<lambda>verLo.
     bindE (index match 3) (\<lambda>verHi.
     bindE (slice content verLo verHi) (\<lambda>ver.
     bindE (case rest of
              [] \<Rightarrow> Inr (int (length content))
            | nxt # _ \<Rightarrow> index nxt 0) (\<lambda>contentEnd.
     bindE (slice content versionEnd contentEnd) (\<lambda>sectionContent.
     Inr \<lparr>Version = ver, ReleasedAt = zeroTime, Source = [], Sections = [],
          Changes = parseChanges sectionContent\<rparr>))))))"

fun parseMarkdownChangelog_loop ::
    "string \<Rightarrow> int list list \<Rightarrow> panic + ChangelogEntry list" where
  "parseMarkdownChangelog_loop content [] = Inr []"
| "parseMarkdownChangelog_loop content (match # rest) =
     (case parseMarkdownChangelog_entry content match rest of
        Inl e \<Rightarrow> Inl e
      | Inr entry \<Rightarrow>
          (case parseMarkdownChangelog_loop content rest of
             Inl e \<Rightarrow> Inl e
           | Inr entries \<Rightarrow> Inr (entry # entries)))"

definition parseMarkdownChangelog :: "string \<Rightarrow> Regexp \<Rightarrow> panic + ChangelogEntry list" where
  "parseMarkdownChangelog content versionRegex =
     parseMarkdownChangelog_loop content (versionRegex content)"

subsection \<open>Dates\<close>

text \<open>
  \<^verbatim>\<open>time.Parse("2006-01-02", value)\<close>: a year of four digits, a month and a day
  of two digits each, separated by \<^verbatim>\<open>-\<close>, and nothing after; the month within
  1 to 12 and the day within the month (\<^verbatim>\<open>daysIn\<close>).  The result is
  \<^verbatim>\<open>Date(year, month, day, 0, 0, 0, 0, UTC)\<close>.
\<close>

datatype timeError = BadValue | MonthOutOfRange | ExtraText | DayOutOfRange

definition isDigit :: "char \<Rightarrow> bool" where
  "isDigit c = ((48::nat) \<le> of_char c \<and> of_char c \<le> (57::nat))"

definition digitVal :: "char \<Rightarrow> int" where
  "digitVal c = int (of_char c) - 48"

definition isLeap :: "int \<Rightarrow> bool" where
  "isLeap y = (y mod 4 = 0 \<and> (y mod 100 \<noteq> 0 \<or> y mod 400 = 0))"

definition daysIn :: "int \<Rightarrow> int \<Rightarrow> int" where
  "daysIn m y =
     (if m = 2 then (if isLeap y then 29 else 28)
      else if m = 4 \<or> m = 6 \<or> m = 9 \<or> m = 11 then 30 else 31)"

text \<open>\<^verbatim>\<open>getnum(s, true)\<close>: a number of exactly two digits, and the rest.\<close>

definition getnum2 :: "string \<Rightarrow> timeError + int \<times> string" where
  "getnum2 s =
     (case s of
        a # b # r \<Rightarrow>
          if isDigit a \<and> isDigit b then Inr (digitVal a * 10 + digitVal b, r)
          else Inl BadValue
      | _ \<Rightarrow> Inl BadValue)"

definition skipDash :: "string \<Rightarrow> timeError + string" where
  "skipDash s = (case s of c # r \<Rightarrow> if c = CHR ''-'' then Inr r else Inl BadValue | [] \<Rightarrow> Inl BadValue)"

definition time_Parse_date :: "string \<Rightarrow> timeError + Time" where
  "time_Parse_date s =
     (if length s < 4 \<or> \<not> list_all isDigit (take 4 s) then Inl BadValue
      else
        let y = foldl (\<lambda>n c. n * 10 + digitVal c) 0 (take 4 s) in
        case skipDash (drop 4 s) of
          Inl e \<Rightarrow> Inl e
        | Inr s1 \<Rightarrow>
            (case getnum2 s1 of
               Inl e \<Rightarrow> Inl e
             | Inr (m, s2) \<Rightarrow>
                 if m \<le> 0 \<or> 12 < m then Inl MonthOutOfRange
                 else
                   (case skipDash s2 of
                      Inl e \<Rightarrow> Inl e
                    | Inr s3 \<Rightarrow>
                        (case getnum2 s3 of
                           Inl e \<Rightarrow> Inl e
                         | Inr (d, s4) \<Rightarrow>
                             if s4 \<noteq> [] then Inl ExtraText
                             else if d < 1 \<or> daysIn m y < d then Inl DayOutOfRange
                             else Inr \<lparr>year = y, month = m, day = d, hour = 0, minute = 0,
                                       second = 0, nanosecond = 0, zoneOffset = 0\<rparr>))))"

text \<open>\<^verbatim>\<open>t, _ := time.Parse(...)\<close>: the error is dropped, and with an error
  \<^verbatim>\<open>time.Parse\<close> returns the zero time.\<close>

definition dropError :: "timeError + Time \<Rightarrow> Time" where
  "dropError r = (case r of Inl e \<Rightarrow> zeroTime | Inr t \<Rightarrow> t)"

subsection \<open>The dated variant\<close>

text \<open>One match of \<^verbatim>\<open>FindAllStringSubmatch\<close>, from the positions of
  \<^verbatim>\<open>FindAllStringSubmatchIndex\<close>: the text of the match and of each group,
  the empty string for a group that took no part.\<close>

definition submatchStrings :: "string \<Rightarrow> int list \<Rightarrow> string list" where
  "submatchStrings s match =
     map (\<lambda>j. if 0 \<le> match ! (2 * j)
              then take (nat (match ! (2 * j + 1) - match ! (2 * j))) (drop (nat (match ! (2 * j))) s)
              else [])
       [0..<length match div 2]"

definition parseMarkdownChangelogWithDate_entry ::
    "string \<Rightarrow> int list \<Rightarrow> int list list \<Rightarrow> panic + ChangelogEntry" where
  "parseMarkdownChangelogWithDate_entry content matchIndex rest =
     (let match = submatchStrings content matchIndex in
      bindE (index match 1) (\<lambda>ver.
      bindE (index match 2) (\<lambda>dateStr.
      let releasedAt = dropError (time_Parse_date dateStr) in
      bindE (case rest of
               [] \<Rightarrow> Inr (int (length content))
             | nxt # _ \<Rightarrow> index nxt 0) (\<lambda>contentEnd.
      bindE (index matchIndex 1) (\<lambda>lo.
      bindE (slice content lo contentEnd) (\<lambda>sectionContent.
      Inr \<lparr>Version = ver, ReleasedAt = releasedAt, Source = [], Sections = [],
           Changes = parseChanges sectionContent\<rparr>))))))"

fun parseMarkdownChangelogWithDate_loop ::
    "string \<Rightarrow> int list list \<Rightarrow> panic + ChangelogEntry list" where
  "parseMarkdownChangelogWithDate_loop content [] = Inr []"
| "parseMarkdownChangelogWithDate_loop content (matchIndex # rest) =
     (case parseMarkdownChangelogWithDate_entry content matchIndex rest of
        Inl e \<Rightarrow> Inl e
      | Inr entry \<Rightarrow>
          (case parseMarkdownChangelogWithDate_loop content rest of
             Inl e \<Rightarrow> Inl e
           | Inr entries \<Rightarrow> Inr (entry # entries)))"

definition parseMarkdownChangelogWithDate ::
    "string \<Rightarrow> Regexp \<Rightarrow> panic + ChangelogEntry list" where
  "parseMarkdownChangelogWithDate content versionRegex =
     parseMarkdownChangelogWithDate_loop content (versionRegex content)"

subsection \<open>The two header patterns of the source\<close>

text \<open>
  Both patterns carry the flag \<^verbatim>\<open>(?m)\<close>, start with \<^verbatim>\<open>^\<close> and end
  with \<^verbatim>\<open>\s*$\<close>: a match starts at the start of a line, and
  \<^verbatim>\<open>$\<close> holds at the end of the text and before a line feed.  \<^verbatim>\<open>\d\<close> is
  an ASCII digit.  \<open>matchSpacesEOL s\<close> is the number of characters the greedy
  \<^verbatim>\<open>\s*\<close> takes at the start of \<open>s\<close> so that \<^verbatim>\<open>$\<close> holds after
  them: the whole run of white space when the text ends with it, else the part of the run
  before its last line feed; \<open>None\<close> when the run neither ends the text nor holds a line
  feed.
\<close>

definition matchSpacesEOL :: "string \<Rightarrow> nat option" where
  "matchSpacesEOL s =
     (let w = takeWhile reSpace s in
      if length w = length s then Some (length w)
      else (case dropWhile (\<lambda>c. c \<noteq> CHR 0x0A) (rev w) of
              [] \<Rightarrow> None
            | nl # front \<Rightarrow> Some (length front)))"

text \<open>
  A match of \<^verbatim>\<open>## (\d+\.\d+\.\d+)\s*$\<close> at the start of \<open>s\<close>: the length of
  the match, and the start and end of group 1 in it.  Each \<^verbatim>\<open>\d+\<close> takes a
  whole run of digits, since the character after it must not be a digit.
\<close>

definition matchClaudeHeader :: "string \<Rightarrow> (nat \<times> nat list) option" where
  "matchClaudeHeader s =
     (if \<not> HasPrefix s ''## '' then None
      else
        let r0 = drop 3 s;
            d1 = takeWhile isDigit r0;
            r1 = dropWhile isDigit r0;
            r2 = drop 1 r1;
            d2 = takeWhile isDigit r2;
            r3 = dropWhile isDigit r2;
            r4 = drop 1 r3;
            d3 = takeWhile isDigit r4;
            r5 = dropWhile isDigit r4;
            v = length d1 + 1 + length d2 + 1 + length d3
        in if d1 = [] \<or> \<not> HasPrefix r1 ''.'' \<or> d2 = [] \<or> \<not> HasPrefix r3 ''.'' \<or> d3 = []
           then None
           else (case matchSpacesEOL r5 of
                   None \<Rightarrow> None
                 | Some k \<Rightarrow> Some (3 + v + k, [3, 3 + v])))"

text \<open>
  A match of \<^verbatim>\<open>## ([\d.]+) - (\d{4}-\d{2}-\d{2})\s*$\<close> at the start of \<open>s\<close>:
  the length of the match, and the starts and ends of groups 1 and 2 in it.
\<close>

definition isDateShape :: "string \<Rightarrow> bool" where
  "isDateShape d =
     (length d = 10 \<and> list_all isDigit (take 4 d) \<and> d ! 4 = CHR ''-'' \<and>
      list_all isDigit (take 2 (drop 5 d)) \<and> d ! 7 = CHR ''-'' \<and>
      list_all isDigit (drop 8 d))"

definition matchCopilotHeader :: "string \<Rightarrow> (nat \<times> nat list) option" where
  "matchCopilotHeader s =
     (if \<not> HasPrefix s ''## '' then None
      else
        let r0 = drop 3 s;
            ver = takeWhile (\<lambda>c. isDigit c \<or> c = CHR ''.'') r0;
            r1 = dropWhile (\<lambda>c. isDigit c \<or> c = CHR ''.'') r0;
            r2 = drop 3 r1;
            v = length ver
        in if ver = [] \<or> \<not> HasPrefix r1 '' - '' \<or> \<not> isDateShape (take 10 r2) then None
           else (case matchSpacesEOL (drop 10 r2) of
                   None \<Rightarrow> None
                 | Some k \<Rightarrow> Some (3 + v + 3 + 10 + k, [3, 3 + v, 3 + v + 3, 3 + v + 3 + 10])))"

text \<open>
  \<^verbatim>\<open>FindAllStringSubmatchIndex(content, -1)\<close> for a pattern that matches at the
  start of a line only, \<open>m\<close> being the match at the start of a text: the matches from
  left to right, each search starting where the match before ended.  \<open>pos\<close> is the
  position of \<open>s\<close> in the content and \<open>bol\<close> says that it is the start of a line.
  (A match of the two patterns is never empty.)
\<close>

function findAllAnchored ::
    "(string \<Rightarrow> (nat \<times> nat list) option) \<Rightarrow> nat \<Rightarrow> bool \<Rightarrow> string \<Rightarrow> int list list" where
  "findAllAnchored m pos bol s =
     (case s of
        [] \<Rightarrow> []
      | c # cs \<Rightarrow>
          (case (if bol then m s else None) of
             None \<Rightarrow> findAllAnchored m (pos + 1) (c = CHR 0x0A) cs
           | Some (n, groups) \<Rightarrow>
               if 0 < n \<and> n \<le> length s
               then map (\<lambda>g. int (pos + g)) (0 # n # groups) #
                    findAllAnchored m (pos + n) (s ! (n - 1) = CHR 0x0A) (drop n s)
               else []))"
  by pat_completeness auto
termination
  by (relation "measure (\<lambda>(m, pos, bol, s). length s)") auto

declare findAllAnchored.simps [simp del]

text \<open>The pattern of \<^verbatim>\<open>fetchClaudeChangelog\<close>,
  \<^verbatim>\<open>(?m)^## (\d+\.\d+\.\d+)\s*$\<close>, and that of
  \<^verbatim>\<open>fetchCopilotChangelog\<close>,
  \<^verbatim>\<open>(?m)^## ([\d.]+) - (\d{4}-\d{2}-\d{2})\s*$\<close>.\<close>

definition claudeVersionRegex :: Regexp where
  "claudeVersionRegex content = findAllAnchored matchClaudeHeader 0 True content"

definition copilotVersionRegex :: Regexp where
  "copilotVersionRegex content = findAllAnchored matchCopilotHeader 0 True content"

section \<open>Releases\<close>

text \<open>The version-string normalizer: the two \<^verbatim>\<open>strings.TrimPrefix\<close> calls on
  the tag name in \<^verbatim>\<open>fetchGitHubReleases\<close>.\<close>

definition normalizeVersion :: "string \<Rightarrow> string" where
  "normalizeVersion tag = (let ver = TrimPrefix tag ''v'' in TrimPrefix ver ''rust-v'')"

text \<open>A decoded release record (its field \<^verbatim>\<open>Name\<close>, which the function does not
  read, is \<open>ReleaseName\<close> here).\<close>

record release =
  TagName :: string
  ReleaseName :: string
  Body :: string
  PublishedAt :: string

text \<open>
  The loop of \<^verbatim>\<open>fetchGitHubReleases\<close> over the decoded releases.
  \<open>parseRFC3339\<close> stands for \<^verbatim>\<open>time.Parse(time.RFC3339, _)\<close>.
\<close>

definition releaseEntry :: "(string \<Rightarrow> timeError + Time) \<Rightarrow> release \<Rightarrow> ChangelogEntry" where
  "releaseEntry parseRFC3339 rel =
     (let ver = normalizeVersion (TagName rel);
          (sections, ungroupedChanges) = parseReleaseBody (Body rel);
          releasedAt = dropError (parseRFC3339 (PublishedAt rel))
      in \<lparr>Version = ver, ReleasedAt = releasedAt, Source = [], Sections = sections,
           Changes = ungroupedChanges\<rparr>)"

definition releaseEntries ::
    "(string \<Rightarrow> timeError + Time) \<Rightarrow> release list \<Rightarrow> ChangelogEntry list" where
  "releaseEntries parseRFC3339 releases =
     foldl (\<lambda>entries rel. entries @ [releaseEntry parseRFC3339 rel]) [] releases"

section \<open>Invariant of the release-body scan\<close>

text \<open>A change that the hierarchical parser keeps is not empty and does not start with
  \<^verbatim>\<open>@\<close>; a section it keeps is not named after the wrapper header.\<close>

definition goodChange :: "string \<Rightarrow> bool" where
  "goodChange c = (c \<noteq> [] \<and> \<not> HasPrefix c ''@'')"

definition goodSection :: "Section \<Rightarrow> bool" where
  "goodSection s = (Name s \<noteq> ''What's Changed'' \<and> list_all goodChange (SectionChanges s))"

definition scanInv :: "scan \<Rightarrow> bool" where
  "scanInv st =
     (list_all (\<lambda>s. goodSection s \<and> SectionChanges s \<noteq> []) (sections st) \<and>
      list_all goodChange (ungroupedChanges st) \<and>
      (case currentSection st of None \<Rightarrow> True | Some cur \<Rightarrow> goodSection cur))"

section \<open>Spans of the flat parser\<close>

text \<open>\<open>substr s lo hi\<close> is the text of \<open>s\<close> from position \<open>lo\<close> up to
  position \<open>hi\<close>: the value of \<^verbatim>\<open>s[lo:hi]\<close> when the bounds are in range.\<close>

definition substr :: "string \<Rightarrow> int \<Rightarrow> int \<Rightarrow> string" where
  "substr s lo hi = take (nat (hi - lo)) (drop (nat lo) s)"

text \<open>
  What package \<^verbatim>\<open>regexp\<close> guarantees of the matches it returns, for a pattern
  with \<open>k\<close> groups that each take part in every match: the positions of the match
  (\<open>j = 0\<close>) and of each group are in order and within the content, and the matches
  do not overlap and come from left to right (each starts at or after \<open>lo\<close>, the
  end of the one before).
\<close>

definition okPair :: "string \<Rightarrow> int list \<Rightarrow> nat \<Rightarrow> bool" where
  "okPair content m j =
     (2 * j + 1 < length m \<and> 0 \<le> m ! (2 * j) \<and> m ! (2 * j) \<le> m ! (2 * j + 1) \<and>
      m ! (2 * j + 1) \<le> int (length content))"

fun wfMatches :: "nat \<Rightarrow> string \<Rightarrow> int \<Rightarrow> int list list \<Rightarrow> bool" where
  "wfMatches k content lo [] = True"
| "wfMatches k content lo (m # ms) =
     (list_all (okPair content m) [0..<Suc k] \<and> lo \<le> m ! 0 \<and> wfMatches k content (m ! 1) ms)"

text \<open>
  The span of the \<open>i\<close>-th match in the spec's words: it starts right after the text of
  the \<open>i\<close>-th match and ends right before the start of the next match, or at the end
  of the document for the last match.  \<open>matchTextOf\<close> is the text of the \<open>i\<close>-th
  match, and \<open>tile\<close> the \<open>i\<close>-th span followed by the text of the next
  match, when there is one.
\<close>

definition spanOf :: "string \<Rightarrow> int list list \<Rightarrow> nat \<Rightarrow> string" where
  "spanOf content ms i =
     substr content (ms ! i ! 1)
       (if Suc i < length ms then ms ! Suc i ! 0 else int (length content))"

definition matchTextOf :: "string \<Rightarrow> int list list \<Rightarrow> nat \<Rightarrow> string" where
  "matchTextOf content ms i = substr content (ms ! i ! 0) (ms ! i ! 1)"

text \<open>The entry expected of the \<open>i\<close>-th match, in either variant.\<close>

definition undatedEntry :: "string \<Rightarrow> int list list \<Rightarrow> nat \<Rightarrow> ChangelogEntry" where
  "undatedEntry content ms i =
     \<lparr>Version = substr content (ms ! i ! 2) (ms ! i ! 3), ReleasedAt = zeroTime, Source = [],
      Sections = [], Changes = parseChanges (spanOf content ms i)\<rparr>"

definition datedEntry :: "string \<Rightarrow> int list list \<Rightarrow> nat \<Rightarrow> ChangelogEntry" where
  "datedEntry content ms i =
     \<lparr>Version = substr content (ms ! i ! 2) (ms ! i ! 3),
      ReleasedAt = dropError (time_Parse_date (substr content (ms ! i ! 4) (ms ! i ! 5))),
      Source = [], Sections = [], Changes = parseChanges (spanOf content ms i)\<rparr>"

definition tile :: "string \<Rightarrow> int list list \<Rightarrow> nat \<Rightarrow> string" where
  "tile content ms i =
     spanOf content ms i @ (if Suc i < length ms then matchTextOf content ms (Suc i) else [])"

text \<open>The groups of a match of length \<open>n\<close>, relative to its start: \<open>k\<close>
  pairs of positions, each in order and within the match.\<close>

definition groupsOk :: "nat \<Rightarrow> nat \<Rightarrow> nat list \<Rightarrow> bool" where
  "groupsOk k n gs =
     (length gs = 2 * k \<and> (\<forall>j<k. gs ! (2 * j) \<le> gs ! (2 * j + 1) \<and> gs ! (2 * j + 1) \<le> n))"

text \<open>
  What the flat parser owes for the matches \<open>ms\<close>: one entry for each match, in
  order; the entry of the \<open>i\<close>-th match with the text of group 1 as its version and
  the bullets of the \<open>i\<close>-th span as its changes; the spans, each followed by the
  text of the next match, making up the content after the first match, with no gap and no
  overlap; and an entry without changes for a match that the next one follows at once.
\<close>

definition spansTile :: "string \<Rightarrow> int list list \<Rightarrow> ChangelogEntry list \<Rightarrow> bool" where
  "spansTile content ms es =
     (length es = length ms \<and>
      (\<forall>i<length ms.
         Version (es ! i) = substr content (ms ! i ! 2) (ms ! i ! 3) \<and>
         Changes (es ! i) = parseChanges (spanOf content ms i)) \<and>
      (ms \<noteq> [] \<longrightarrow>
         concat (map (tile content ms) [0..<length ms]) = drop (nat (ms ! 0 ! 1)) content) \<and>
      (\<forall>i. Suc i < length ms \<and> ms ! i ! 1 = ms ! Suc i ! 0 \<longrightarrow>
         spanOf content ms i = [] \<and> Changes (es ! i) = []))"

text \<open>A time with no time of day, in UTC.\<close>

definition dateOnly :: "Time \<Rightarrow> bool" where
  "dateOnly t = (hour t = 0 \<and> minute t = 0 \<and> second t = 0 \<and> nanosecond t = 0 \<and> zoneOffset t = 0)"

text \<open>
  The year, month and day that a text of the shape \<^verbatim>\<open>YYYY-MM-DD\<close> names, and
  whether they are a calendar date: the month within 1 to 12 and the day within the month.
\<close>

definition dateYear :: "string \<Rightarrow> int" where
  "dateYear d = foldl (\<lambda>n c. n * 10 + digitVal c) 0 (take 4 d)"

definition dateMonth :: "string \<Rightarrow> int" where
  "dateMonth d = digitVal (d ! 5) * 10 + digitVal (d ! 6)"

definition dateDay :: "string \<Rightarrow> int" where
  "dateDay d = digitVal (d ! 8) * 10 + digitVal (d ! 9)"

definition dateValid :: "string \<Rightarrow> bool" where
  "dateValid d =
     (1 \<le> dateMonth d \<and> dateMonth d \<le> 12 \<and> 1 \<le> dateDay d \<and>
      dateDay d \<le> daysIn (dateMonth d) (dateYear d))"

section \<open>Example documents\<close>

text \<open>Two documents in the format of \<^verbatim>\<open>fetchCopilotChangelog\<close>, the second with
  two dates that are no calendar dates.\<close>

definition copilotExample :: string where
  "copilotExample =
     ''# Log\<newline>## 1.5.0 - 2025-03-10\<newline>- x\<newline>## 1.4.0 - 2025-02-01\<newline>- y''"

definition copilotBadDate :: string where
  "copilotBadDate =
     ''## 1.4.0 - 2025-13-40\<newline>- y\<newline>## 1.3.0 - 2025-02-30\<newline>- z\<newline>## 1.2.0 - 2024-02-29\<newline>- w''"

text \<open>A stand-in for \<^verbatim>\<open>time.Parse(time.RFC3339, _)\<close> that knows one instant,
  and two decoded releases, the first with a \<^verbatim>\<open>published_at\<close> that does not
  parse.\<close>

definition exampleRFC3339 :: "string \<Rightarrow> timeError + Time" where
  "exampleRFC3339 s =
     (if s = ''2025-03-10T12:30:00Z''
      then Inr \<lparr>year = 2025, month = 3, day = 10, hour = 12, minute = 30, second = 0,
                nanosecond = 0, zoneOffset = 0\<rparr>
      else Inl BadValue)"

definition exampleReleases :: "release list" where
  "exampleReleases =
     [\<lparr>TagName = ''v2.0.0'', ReleaseName = ''two'', Body = ''## Fixes\<newline>- a\<newline>* @bob'',
       PublishedAt = ''soon''\<rparr>,
      \<lparr>TagName = ''rust-v1.9.0'', ReleaseName = ''one'', Body = ''- b'',
       PublishedAt = ''2025-03-10T12:30:00Z''\<rparr>]"

section \<open>Facts about prefixes\<close>

lemma HasPrefix_Cons: "HasPrefix (c # cs) (p # ps) = (c = p \<and> HasPrefix cs ps)"
  by (auto simp: HasPrefix_def)

lemma HasPrefix_Nil: "HasPrefix s []"
  by (simp add: HasPrefix_def)

lemma HasPrefix_Nil2: "HasPrefix [] (p # ps) = False"
  by (simp add: HasPrefix_def)

lemma HasPrefix_append_iff:
  "HasPrefix s (p @ q) = (HasPrefix s p \<and> HasPrefix (drop (length p) s) q)"
proof (induction p arbitrary: s)
  case Nil
  show ?case by (simp add: HasPrefix_Nil)
next
  case (Cons a p)
  show ?case by (cases s) (simp_all add: HasPrefix_Nil2 HasPrefix_Cons Cons.IH)
qed

lemma TrimPrefix_v: "TrimPrefix s ''v'' = (if HasPrefix s ''v'' then drop 1 s else s)"
  by (simp add: TrimPrefix_def)

lemma TrimPrefix_rust_v:
  "TrimPrefix s ''rust-v'' = (if HasPrefix s ''rust-v'' then drop 6 s else s)"
  by (simp add: TrimPrefix_def eval_nat_numeral)

lemma TrimPrefix_dash: "TrimPrefix s ''- '' = (if HasPrefix s ''- '' then drop 2 s else s)"
  by (simp add: TrimPrefix_def eval_nat_numeral)

lemma TrimPrefix_star: "TrimPrefix s ''* '' = (if HasPrefix s ''* '' then drop 2 s else s)"
  by (simp add: TrimPrefix_def eval_nat_numeral)

lemma star_not_dash: "HasPrefix t ''* '' \<Longrightarrow> \<not> HasPrefix t ''- ''"
  by (cases t) (auto simp: HasPrefix_Cons HasPrefix_Nil2)

section \<open>The version-string normalizer\<close>

text \<open>
  C2, as the code has it.  The normalizer removes a leading \<^verbatim>\<open>v\<close> when there
  is one and then, from what is left, a leading \<^verbatim>\<open>rust-v\<close> when there is one.
  So a tag that starts with \<^verbatim>\<open>vrust-v\<close> loses both prefixes; any other tag loses
  at most one of the two, and what follows the removed prefix is returned unchanged.
\<close>

theorem normalizeVersion_chained:
  "normalizeVersion s =
     (if HasPrefix s ''vrust-v'' then drop 7 s
      else if HasPrefix s ''v'' then drop 1 s
      else if HasPrefix s ''rust-v'' then drop 6 s
      else s)"
proof -
  have a: "HasPrefix s ''vrust-v'' = (HasPrefix s ''v'' \<and> HasPrefix (drop 1 s) ''rust-v'')"
    using HasPrefix_append_iff[of s "''v''" "''rust-v''"] by simp
  have b: "HasPrefix s ''v'' \<Longrightarrow> \<not> HasPrefix s ''rust-v''"
    by (cases s) (auto simp: HasPrefix_Cons HasPrefix_Nil2)
  show ?thesis
    using b by (auto simp: normalizeVersion_def TrimPrefix_v TrimPrefix_rust_v Let_def a)
qed

text \<open>C2 as stated fails: the tag \<^verbatim>\<open>vrust-v1.0\<close> loses both prefixes, not only
  the leading \<^verbatim>\<open>v\<close>.\<close>

theorem normalizeVersion_strips_both:
  "normalizeVersion ''vrust-v1.0'' = ''1.0'' \<and> drop 1 ''vrust-v1.0'' = ''rust-v1.0''"
  by code_simp

section \<open>The hierarchical parser, line by line\<close>

lemma bullet_no_header:
  assumes "HasPrefix t ''- '' \<or> HasPrefix t ''* ''"
  shows "headerRegex_FindStringSubmatch t = None"
proof -
  from assms obtain c cs where t: "t = c # cs" and c: "c \<noteq> CHR ''#''"
    by (cases t) (auto simp: HasPrefix_def)
  then show ?thesis
    by (simp add: headerRegex_FindStringSubmatch_def Let_def)
qed

lemma parseLine_header:
  assumes "headerOf line = Some h" and "h \<noteq> ''What's Changed''"
  shows "parseLine st line =
           st\<lparr>sections := flush st,
              currentSection := Some \<lparr>Name = h, SectionChanges = []\<rparr>\<rparr>"
  using assms by (auto simp: headerOf_def parseLine_def Let_def split: option.splits)

lemma parseLine_wrapper:
  assumes "headerOf line = Some ''What's Changed''"
  shows "parseLine st line = st"
  using assms by (auto simp: headerOf_def parseLine_def Let_def split: option.splits)

lemma parseLine_header_twice:
  assumes "headerOf l1 = Some h1" "h1 \<noteq> ''What's Changed''"
    and "headerOf l2 = Some h2" "h2 \<noteq> ''What's Changed''"
  shows "parseLine (parseLine st l1) l2 = parseLine st l2"
  by (simp add: parseLine_header[OF assms(1,2)] parseLine_header[OF assms(3,4)] flush_def)

text \<open>
  C3, as the code has it.  For a line that after trimming starts with \<^verbatim>\<open>"- "\<close>
  or \<^verbatim>\<open>"* "\<close>, the content of the bullet is the text after that marker, except
  that when the marker is \<^verbatim>\<open>"- "\<close> and the text after it starts with
  \<^verbatim>\<open>"* "\<close>, this second marker is removed as well.  A content that is empty or
  starts with \<^verbatim>\<open>@\<close> is dropped; any other goes to the open section, or to the
  ungrouped changes when no section is open.
\<close>

theorem bullet_content:
  assumes "HasPrefix (TrimSpace line) ''- '' \<or> HasPrefix (TrimSpace line) ''* ''"
  shows "parseLine st line =
     (let t = TrimSpace line;
          content = (if HasPrefix t ''- '' \<and> HasPrefix (drop 2 t) ''* '' then drop 4 t
                     else drop 2 t)
      in if content = [] \<or> HasPrefix content ''@'' then st
         else (case currentSection st of
                 Some cur \<Rightarrow>
                   st\<lparr>currentSection :=
                        Some (cur\<lparr>SectionChanges := SectionChanges cur @ [content]\<rparr>)\<rparr>
               | None \<Rightarrow> st\<lparr>ungroupedChanges := ungroupedChanges st @ [content]\<rparr>))"
proof -
  have h: "headerRegex_FindStringSubmatch (TrimSpace line) = None"
    by (rule bullet_no_header[OF assms])
  define t where "t = TrimSpace line"
  have c: "TrimPrefix (TrimPrefix t ''- '') ''* '' =
        (if HasPrefix t ''- '' \<and> HasPrefix (drop 2 t) ''* '' then drop 4 t else drop 2 t)"
    using assms star_not_dash[of t] by (auto simp: TrimPrefix_dash TrimPrefix_star t_def)
  show ?thesis
    unfolding parseLine_def t_def[symmetric] Let_def c
    using assms by (auto simp: h t_def split: option.splits)
qed

theorem bullet_content_witness:
  "HasPrefix (TrimSpace ''  - * foo '') ''- '' \<and>
   parseLine scan0 ''  - * foo '' = scan0\<lparr>ungroupedChanges := [''foo'']\<rparr>"
proof -
  have t: "TrimSpace ''  - * foo '' = ''- * foo''" by code_simp
  have h: "HasPrefix (TrimSpace ''  - * foo '') ''- ''" unfolding t by code_simp
  have c: "currentSection scan0 = None" "ungroupedChanges scan0 = []"
    by (simp_all add: scan0_def)
  from bullet_content[OF disjI1[OF h], of scan0] h show ?thesis
    by (simp add: t Let_def HasPrefix_Cons HasPrefix_Nil HasPrefix_Nil2 c)
qed

text \<open>C3 as stated fails: the line \<^verbatim>\<open>- * foo\<close> yields the content
  \<^verbatim>\<open>foo\<close>, not the text \<^verbatim>\<open>* foo\<close> after its first marker.\<close>

theorem bullet_content_both_markers:
  "parseReleaseBody ''- * foo'' = ([], [''foo'']) \<and>
   drop 2 (TrimSpace ''- * foo'') = ''* foo''"
  by code_simp

lemma parseLine_ignored:
  assumes "headerOf line = None"
    and "\<not> HasPrefix (TrimSpace line) ''- ''" and "\<not> HasPrefix (TrimSpace line) ''* ''"
  shows "parseLine st line = st"
  using assms by (auto simp: headerOf_def parseLine_def Let_def split: option.splits)

lemma foldl_parseLine_ignored:
  assumes "list_all (\<lambda>l. headerOf l = None \<and> \<not> HasPrefix (TrimSpace l) ''- '' \<and>
                        \<not> HasPrefix (TrimSpace l) ''* '') mid"
  shows "foldl parseLine st mid = st"
  using assms by (induction mid arbitrary: st) (simp_all add: parseLine_ignored)

lemma flush_inv:
  assumes "scanInv st"
  shows "list_all (\<lambda>s. goodSection s \<and> SectionChanges s \<noteq> []) (flush st)"
  using assms by (auto simp: scanInv_def flush_def split: option.splits)

lemma parseLine_inv:
  assumes "scanInv st"
  shows "scanInv (parseLine st line)"
proof (cases "headerOf line")
  case (Some h)
  show ?thesis
  proof (cases "h = ''What's Changed''")
    case True
    with Some assms show ?thesis by (simp add: parseLine_wrapper)
  next
    case False
    from flush_inv[OF assms] assms False show ?thesis
      by (simp add: parseLine_header[OF Some False] scanInv_def goodSection_def)
  qed
next
  case None
  then have h: "headerRegex_FindStringSubmatch (TrimSpace line) = None"
    by (simp add: headerOf_def split: option.splits)
  from assms show ?thesis
    by (auto simp: parseLine_def h Let_def scanInv_def goodSection_def goodChange_def
        split: option.splits)
qed

lemma foldl_parseLine_inv:
  assumes "scanInv st"
  shows "scanInv (foldl parseLine st ls)"
  using assms by (induction ls arbitrary: st) (simp_all add: parseLine_inv)

lemma scanInv_scan0: "scanInv scan0"
  by (simp add: scanInv_def scan0_def)

lemma parseLines_inv:
  "list_all (\<lambda>s. goodSection s \<and> SectionChanges s \<noteq> []) (fst (parseLines ls))"
  "list_all goodChange (snd (parseLines ls))"
proof -
  have "scanInv (foldl parseLine scan0 ls)"
    by (rule foldl_parseLine_inv[OF scanInv_scan0])
  then show "list_all (\<lambda>s. goodSection s \<and> SectionChanges s \<noteq> []) (fst (parseLines ls))"
    "list_all goodChange (snd (parseLines ls))"
    using flush_inv by (simp_all add: parseLines_def Let_def scanInv_def)
qed

lemma parseLines_collapse:
  assumes "headerOf l1 = Some h1" "h1 \<noteq> ''What's Changed''"
    and "headerOf l2 = Some h2" "h2 \<noteq> ''What's Changed''"
    and "list_all (\<lambda>l. headerOf l = None \<and> \<not> HasPrefix (TrimSpace l) ''- '' \<and>
                        \<not> HasPrefix (TrimSpace l) ''* '') mid"
  shows "parseLines (xs @ l1 # mid @ l2 # ys) = parseLines (xs @ l2 # ys)"
  by (simp add: parseLines_def foldl_parseLine_ignored[OF assms(5)]
      parseLine_header_twice[OF assms(1-4)])

lemma parseLines_wrapper:
  assumes "headerOf line = Some ''What's Changed''"
  shows "parseLines (xs @ line # ys) = parseLines (xs @ ys)"
  by (simp add: parseLines_def parseLine_wrapper[OF assms])


lemma parseLine_mention:
  assumes "HasPrefix (TrimSpace line) ''- @'' \<or> HasPrefix (TrimSpace line) ''* @''"
  shows "parseLine st line = st"
proof -
  define t where "t = TrimSpace line"
  have d: "HasPrefix t ''- @'' = (HasPrefix t ''- '' \<and> HasPrefix (drop 2 t) ''@'')"
    using HasPrefix_append_iff[of t "''- ''" "''@''"] by (simp add: eval_nat_numeral)
  have s: "HasPrefix t ''* @'' = (HasPrefix t ''* '' \<and> HasPrefix (drop 2 t) ''@'')"
    using HasPrefix_append_iff[of t "''* ''" "''@''"] by (simp add: eval_nat_numeral)
  have x: "HasPrefix u ''@'' \<Longrightarrow> \<not> HasPrefix u ''* ''" for u
    by (cases u) (auto simp: HasPrefix_Cons HasPrefix_Nil2)
  from assms have b: "HasPrefix t ''- '' \<or> HasPrefix t ''* ''"
    and c: "HasPrefix (TrimPrefix (TrimPrefix t ''- '') ''* '') ''@''"
    using star_not_dash[of t] x[of "drop 2 t"]
    by (auto simp: t_def[symmetric] d s TrimPrefix_dash TrimPrefix_star)
  have h: "headerRegex_FindStringSubmatch t = None"
    by (rule bullet_no_header[OF b])
  show ?thesis
    unfolding parseLine_def t_def[symmetric] Let_def using c by (simp add: h)
qed

lemma releaseEntries_map: "releaseEntries p rels = map (releaseEntry p) rels"
proof -
  have "foldl (\<lambda>entries rel. entries @ [releaseEntry p rel]) acc rels =
        acc @ map (releaseEntry p) rels" for acc
    by (induction rels arbitrary: acc) simp_all
  then show ?thesis by (simp add: releaseEntries_def)
qed

lemma releaseEntry_fields:
  "Sections (releaseEntry p rel) = fst (parseReleaseBody (Body rel))"
  "Changes (releaseEntry p rel) = snd (parseReleaseBody (Body rel))"
  "Version (releaseEntry p rel) = normalizeVersion (TagName rel)"
  "ReleasedAt (releaseEntry p rel) = dropError (p (PublishedAt rel))"
  by (simp_all add: releaseEntry_def Let_def split: prod.splits)

lemma parseReleaseBody_good:
  "list_all (\<lambda>s. goodSection s \<and> SectionChanges s \<noteq> []) (fst (parseReleaseBody body))"
  "list_all goodChange (snd (parseReleaseBody body))"
  by (simp_all add: parseReleaseBody_def parseLines_inv)

text \<open>
  C1, as the code has it.  No change that the hierarchical parser returns, ungrouped or in
  a section, starts with \<^verbatim>\<open>@\<close>, and so none in an entry that
  \<^verbatim>\<open>fetchGitHubReleases\<close> builds; a bullet whose content starts with
  \<^verbatim>\<open>@\<close> is dropped by the loop itself, which leaves its state as it is.
  (The flat parser does not filter: see below.)
\<close>

theorem hierarchical_changes_no_mention:
  "(\<forall>c \<in> set (snd (parseReleaseBody body)). \<not> HasPrefix c ''@'') \<and>
   (\<forall>s \<in> set (fst (parseReleaseBody body)). \<forall>c \<in> set (SectionChanges s). \<not> HasPrefix c ''@'') \<and>
   (\<forall>e \<in> set (releaseEntries parseRFC3339 releases).
      (\<forall>c \<in> set (Changes e). \<not> HasPrefix c ''@'') \<and>
      (\<forall>s \<in> set (Sections e). \<forall>c \<in> set (SectionChanges s). \<not> HasPrefix c ''@'')) \<and>
   (HasPrefix (TrimSpace line) ''- @'' \<or> HasPrefix (TrimSpace line) ''* @'' \<longrightarrow>
      parseLine st line = st)"
proof -
  have a: "\<forall>c \<in> set (snd (parseReleaseBody b)). \<not> HasPrefix c ''@''" for b
    using parseReleaseBody_good(2)[of b] by (simp add: list_all_iff goodChange_def)
  have b: "\<forall>s \<in> set (fst (parseReleaseBody b)). \<forall>c \<in> set (SectionChanges s). \<not> HasPrefix c ''@''"
    for b
    using parseReleaseBody_good(1)[of b]
    by (simp add: list_all_iff goodSection_def goodChange_def)
  have c: "\<forall>e \<in> set (releaseEntries parseRFC3339 releases).
      (\<forall>c \<in> set (Changes e). \<not> HasPrefix c ''@'') \<and>
      (\<forall>s \<in> set (Sections e). \<forall>c \<in> set (SectionChanges s). \<not> HasPrefix c ''@'')"
    using a b by (auto simp: releaseEntries_map releaseEntry_fields)
  from a[of body] b[of body] c parseLine_mention[of line st] show ?thesis by blast
qed

theorem hierarchical_changes_no_mention_witness:
  "HasPrefix (TrimSpace '' - @bob'') ''- @'' \<and> parseLine scan0 '' - @bob'' = scan0 \<and>
   parseReleaseBody ''- z\<newline>- @dan\<newline>## Fixes\<newline>- a\<newline>- @bob\<newline>* @carol'' =
     ([\<lparr>Name = ''Fixes'', SectionChanges = [''a'']\<rparr>], [''z'']) \<and>
   \<not> HasPrefix ''z'' ''@'' \<and> \<not> HasPrefix ''a'' ''@'' \<and>
   releaseEntries (\<lambda>s. Inl BadValue)
     [\<lparr>TagName = ''v1.0'', ReleaseName = [], Body = ''- z\<newline>* @bob'', PublishedAt = []\<rparr>] =
     [\<lparr>Version = ''1.0'', ReleasedAt = zeroTime, Source = [], Sections = [],
       Changes = [''z'']\<rparr>]"
proof -
  have h: "HasPrefix (TrimSpace '' - @bob'') ''- @''" by code_simp
  have r: "parseReleaseBody ''- z\<newline>- @dan\<newline>## Fixes\<newline>- a\<newline>- @bob\<newline>* @carol'' =
     ([\<lparr>Name = ''Fixes'', SectionChanges = [''a'']\<rparr>], [''z''])" by code_simp
  have e: "releaseEntries (\<lambda>s. Inl BadValue)
     [\<lparr>TagName = ''v1.0'', ReleaseName = [], Body = ''- z\<newline>* @bob'', PublishedAt = []\<rparr>] =
     [\<lparr>Version = ''1.0'', ReleasedAt = zeroTime, Source = [], Sections = [],
       Changes = [''z'']\<rparr>]" by code_simp
  note th = hierarchical_changes_no_mention[of
      "''- z\<newline>- @dan\<newline>## Fixes\<newline>- a\<newline>- @bob\<newline>* @carol''" "\<lambda>s. Inl BadValue"
      "[\<lparr>TagName = ''v1.0'', ReleaseName = [], Body = ''- z\<newline>* @bob'', PublishedAt = []\<rparr>]"
      "'' - @bob''" scan0]
  from th h have a: "parseLine scan0 '' - @bob'' = scan0" by blast
  from th have "\<forall>c \<in> set (snd (parseReleaseBody
      ''- z\<newline>- @dan\<newline>## Fixes\<newline>- a\<newline>- @bob\<newline>* @carol'')). \<not> HasPrefix c ''@''"
    and "\<forall>s \<in> set (fst (parseReleaseBody
      ''- z\<newline>- @dan\<newline>## Fixes\<newline>- a\<newline>- @bob\<newline>* @carol'')).
        \<forall>c \<in> set (SectionChanges s). \<not> HasPrefix c ''@''"
    by blast+
  then have n: "\<not> HasPrefix ''z'' ''@''" "\<not> HasPrefix ''a'' ''@''"
    unfolding r by simp_all
  from h a r n e show ?thesis by blast
qed

text \<open>C1 as stated fails for the version-anchored flat parser: it keeps a bullet whose
  content starts with \<^verbatim>\<open>@\<close>.\<close>

theorem flat_parser_keeps_mention:
  "parseMarkdownChangelog ''## 1.0.0\<newline>- @bob'' claudeVersionRegex =
     Inr [\<lparr>Version = ''1.0.0'', ReleasedAt = zeroTime, Source = [], Sections = [],
           Changes = [''@bob'']\<rparr>] \<and>
   HasPrefix ''@bob'' ''@''"
  by code_simp

text \<open>
  C6.  No section of the result is named \<^verbatim>\<open>What's Changed\<close>.  A header line
  with exactly this text leaves the state of the scan as it is: it opens no section and
  neither closes nor flushes the open one, so the result is that of the same lines without
  it, and the bullets after it go where they would have gone.
\<close>

theorem wrapper_header_transparent:
  "(\<forall>s \<in> set (fst (parseReleaseBody body)). Name s \<noteq> ''What's Changed'') \<and>
   (headerOf line = Some ''What's Changed'' \<longrightarrow>
      parseLine st line = st \<and> parseLines (xs @ line # ys) = parseLines (xs @ ys))"
proof -
  have a: "\<forall>s \<in> set (fst (parseReleaseBody body)). Name s \<noteq> ''What's Changed''"
    using parseReleaseBody_good(1)[of body] by (simp add: list_all_iff goodSection_def)
  from a parseLine_wrapper[of line st] parseLines_wrapper[of line xs ys]
  show ?thesis by blast
qed

theorem wrapper_header_transparent_witness:
  "headerOf ''## What's Changed'' = Some ''What's Changed'' \<and>
   parseLines [''# Fixes'', ''- a'', ''## What's Changed'', ''- b''] =
     parseLines [''# Fixes'', ''- a'', ''- b''] \<and>
   parseReleaseBody ''# Fixes\<newline>- a\<newline>## What's Changed\<newline>- b'' =
     ([\<lparr>Name = ''Fixes'', SectionChanges = [''a'', ''b'']\<rparr>], []) \<and>
   parseReleaseBody ''## What's Changed\<newline>- b'' = ([], [''b''])"
proof -
  have h: "headerOf ''## What's Changed'' = Some ''What's Changed''" by code_simp
  have r: "parseReleaseBody ''# Fixes\<newline>- a\<newline>## What's Changed\<newline>- b'' =
     ([\<lparr>Name = ''Fixes'', SectionChanges = [''a'', ''b'']\<rparr>], [])" by code_simp
  have r2: "parseReleaseBody ''## What's Changed\<newline>- b'' = ([], [''b''])" by code_simp
  from wrapper_header_transparent[of _ "''## What's Changed''" _ "[''# Fixes'', ''- a'']" "[''- b'']"] h
  have "parseLines [''# Fixes'', ''- a'', ''## What's Changed'', ''- b''] =
     parseLines [''# Fixes'', ''- a'', ''- b'']" by simp
  with h r r2 show ?thesis by simp
qed




text \<open>
  C5.  No section of the result of the hierarchical parser is without changes.  At a
  header (other than the wrapper header) the open section is appended to the sections only
  if it has a change, a new section without changes is opened and the ungrouped changes
  stay as they are; so of two headers with no bullet between them only the second is left,
  as if the first had not been there.  After the last line the open section is appended
  under the same condition.
\<close>

theorem empty_sections_never_kept:
  "(\<forall>s \<in> set (fst (parseReleaseBody body)). SectionChanges s \<noteq> []) \<and>
   (headerOf line = Some h \<and> h \<noteq> ''What's Changed'' \<longrightarrow>
      sections (parseLine st line) =
        (case currentSection st of
           None \<Rightarrow> sections st
         | Some cur \<Rightarrow> if SectionChanges cur = [] then sections st else sections st @ [cur]) \<and>
      currentSection (parseLine st line) = Some \<lparr>Name = h, SectionChanges = []\<rparr> \<and>
      ungroupedChanges (parseLine st line) = ungroupedChanges st) \<and>
   (headerOf l1 = Some h1 \<and> h1 \<noteq> ''What's Changed'' \<and>
    headerOf l2 = Some h2 \<and> h2 \<noteq> ''What's Changed'' \<and>
    list_all (\<lambda>l. headerOf l = None \<and> \<not> HasPrefix (TrimSpace l) ''- '' \<and>
                   \<not> HasPrefix (TrimSpace l) ''* '') mid \<longrightarrow>
      parseLines (xs @ l1 # mid @ l2 # ys) = parseLines (xs @ l2 # ys)) \<and>
   fst (parseLines ls) =
     (let st' = foldl parseLine scan0 ls in
      case currentSection st' of
        None \<Rightarrow> sections st'
      | Some cur \<Rightarrow> if SectionChanges cur = [] then sections st' else sections st' @ [cur])"
proof -
  have a: "\<forall>s \<in> set (fst (parseReleaseBody body)). SectionChanges s \<noteq> []"
    using parseLines_inv(1)[of "Split body CHR 0x0A"]
    by (simp add: parseReleaseBody_def list_all_iff)
  have b: "headerOf line = Some h \<and> h \<noteq> ''What's Changed'' \<longrightarrow>
      sections (parseLine st line) =
        (case currentSection st of
           None \<Rightarrow> sections st
         | Some cur \<Rightarrow> if SectionChanges cur = [] then sections st else sections st @ [cur]) \<and>
      currentSection (parseLine st line) = Some \<lparr>Name = h, SectionChanges = []\<rparr> \<and>
      ungroupedChanges (parseLine st line) = ungroupedChanges st"
    by (auto simp: parseLine_header flush_def split: option.splits)
  have c: "headerOf l1 = Some h1 \<and> h1 \<noteq> ''What's Changed'' \<and>
    headerOf l2 = Some h2 \<and> h2 \<noteq> ''What's Changed'' \<and>
    list_all (\<lambda>l. headerOf l = None \<and> \<not> HasPrefix (TrimSpace l) ''- '' \<and>
                   \<not> HasPrefix (TrimSpace l) ''* '') mid \<longrightarrow>
      parseLines (xs @ l1 # mid @ l2 # ys) = parseLines (xs @ l2 # ys)"
    using parseLines_collapse by blast
  have d: "fst (parseLines ls) =
     (let st' = foldl parseLine scan0 ls in
      case currentSection st' of
        None \<Rightarrow> sections st'
      | Some cur \<Rightarrow> if SectionChanges cur = [] then sections st' else sections st' @ [cur])"
    by (auto simp: parseLines_def Let_def flush_def split: option.splits)
  from a b c d show ?thesis by blast
qed

theorem empty_sections_never_kept_witness:
  "headerOf ''# A'' = Some ''A'' \<and> headerOf ''## B'' = Some ''B'' \<and>
   parseLines [''# A'', '''', ''## B'', ''- x'', ''### C''] = parseLines [''## B'', ''- x'', ''### C''] \<and>
   parseReleaseBody ''# A\<newline>\<newline>## B\<newline>- x\<newline>### C'' =
     ([\<lparr>Name = ''B'', SectionChanges = [''x'']\<rparr>], [])"
proof -
  have h1: "headerOf ''# A'' = Some ''A''" by code_simp
  have h2: "headerOf ''## B'' = Some ''B''" by code_simp
  have n1: "''A'' \<noteq> ''What's Changed''" "''B'' \<noteq> ''What's Changed''" by simp_all
  have m: "list_all (\<lambda>l. headerOf l = None \<and> \<not> HasPrefix (TrimSpace l) ''- '' \<and>
                   \<not> HasPrefix (TrimSpace l) ''* '') ['''']" by code_simp
  have r: "parseReleaseBody ''# A\<newline>\<newline>## B\<newline>- x\<newline>### C'' =
     ([\<lparr>Name = ''B'', SectionChanges = [''x'']\<rparr>], [])" by code_simp
  from empty_sections_never_kept[of _ _ _ _ "''# A''" "''A''" "''## B''" "''B''" "['''']" "[]"
      "[''- x'', ''### C'']"] h1 h2 n1 m
  have "parseLines [''# A'', '''', ''## B'', ''- x'', ''### C''] =
        parseLines [''## B'', ''- x'', ''### C'']" by simp
  with h1 h2 r show ?thesis by simp
qed

section \<open>The flat parser on well-formed matches\<close>

lemma wf_okPair:
  assumes "wfMatches k content lo (m # ms)" and "j \<le> k"
  shows "okPair content m j"
  using assms by (simp add: list_all_iff del: upt_Suc)

lemma wf_next:
  assumes "wfMatches k content lo (m # n # ms)"
  shows "m ! 1 \<le> n ! 0" and "okPair content n 0"
  using assms by (simp_all add: list_all_iff del: upt_Suc)

lemma wf_tail:
  assumes "wfMatches k content lo (m # ms)"
  shows "wfMatches k content (m ! 1) ms"
  using assms by simp

lemma slice_ok:
  assumes "0 \<le> lo" "lo \<le> hi" "hi \<le> int (length s)"
  shows "slice s lo hi = Inr (substr s lo hi)"
  using assms by (simp add: slice_def substr_def)

lemma spanOf_Suc: "spanOf content (m # ms) (Suc i) = spanOf content ms i"
  by (simp add: spanOf_def)

lemma matchTextOf_Suc: "matchTextOf content (m # ms) (Suc i) = matchTextOf content ms i"
  by (simp add: matchTextOf_def)

lemma undatedEntry_Suc: "undatedEntry content (m # ms) (Suc i) = undatedEntry content ms i"
  by (simp add: undatedEntry_def spanOf_Suc)

lemma datedEntry_Suc: "datedEntry content (m # ms) (Suc i) = datedEntry content ms i"
  by (simp add: datedEntry_def spanOf_Suc)

lemma upt_shift: "map f [0..<Suc n] = f 0 # map (\<lambda>i. f (Suc i)) [0..<n]"
  by (simp add: upt_conv_Cons map_Suc_upt[symmetric] del: upt_Suc)

lemma undated_entry_ok:
  assumes "wfMatches 1 content lo (m # rest)"
  shows "parseMarkdownChangelog_entry content m rest = Inr (undatedEntry content (m # rest) 0)"
proof -
  have p0: "okPair content m 0" and p1: "okPair content m 1"
    using wf_okPair[OF assms] by simp_all
  from p1 have i1: "index m 1 = Inr (m ! 1)" "index m 2 = Inr (m ! 2)" "index m 3 = Inr (m ! 3)"
    by (simp_all add: index_def okPair_def)
  from p1 have s1: "slice content (m ! 2) (m ! 3) = Inr (substr content (m ! 2) (m ! 3))"
    by (intro slice_ok) (simp_all add: okPair_def)
  show ?thesis
  proof (cases rest)
    case Nil
    from p0 have "slice content (m ! 1) (int (length content)) =
        Inr (substr content (m ! 1) (int (length content)))"
      by (intro slice_ok) (simp_all add: okPair_def)
    with Nil show ?thesis
      by (simp add: parseMarkdownChangelog_entry_def bindE_def i1 s1 undatedEntry_def spanOf_def)
  next
    case (Cons n ms)
    from wf_next[OF assms[unfolded Cons]] have le: "m ! 1 \<le> n ! 0" and pn: "okPair content n 0"
      by simp_all
    from pn have i0: "index n 0 = Inr (n ! 0)"
      by (auto simp: index_def okPair_def)
    from p0 le pn have "slice content (m ! 1) (n ! 0) = Inr (substr content (m ! 1) (n ! 0))"
      by (intro slice_ok) (simp_all add: okPair_def)
    with Cons show ?thesis
      by (simp add: parseMarkdownChangelog_entry_def bindE_def i1 s1 i0 undatedEntry_def spanOf_def)
  qed
qed

lemma undated_loop_ok:
  assumes "wfMatches 1 content lo ms"
  shows "parseMarkdownChangelog_loop content ms =
           Inr (map (undatedEntry content ms) [0..<length ms])"
  using assms
proof (induction ms arbitrary: lo)
  case Nil
  show ?case by simp
next
  case (Cons m rest)
  have e: "parseMarkdownChangelog_entry content m rest = Inr (undatedEntry content (m # rest) 0)"
    by (rule undated_entry_ok[OF Cons.prems])
  have r: "parseMarkdownChangelog_loop content rest =
           Inr (map (undatedEntry content rest) [0..<length rest])"
    by (rule Cons.IH[OF wf_tail[OF Cons.prems]])
  show ?case
    by (simp add: e r upt_shift undatedEntry_Suc del: upt_Suc)
qed

lemma submatchStrings_nth:
  assumes "2 * j + 1 < length m" and "0 \<le> m ! (2 * j)"
  shows "j < length (submatchStrings s m)"
    and "submatchStrings s m ! j = substr s (m ! (2 * j)) (m ! (2 * j + 1))"
proof -
  from assms(1) have j: "j < length m div 2" by simp
  then show "j < length (submatchStrings s m)" by (simp add: submatchStrings_def)
  from j assms(2) show "submatchStrings s m ! j = substr s (m ! (2 * j)) (m ! (2 * j + 1))"
    by (simp add: submatchStrings_def substr_def)
qed

lemma dated_entry_ok:
  assumes "wfMatches 2 content lo (m # rest)"
  shows "parseMarkdownChangelogWithDate_entry content m rest =
           Inr (datedEntry content (m # rest) 0)"
proof -
  have p0: "okPair content m 0" and p1: "okPair content m 1" and p2: "okPair content m 2"
    using wf_okPair[OF assms] by simp_all
  define strs where "strs = submatchStrings content m"
  from p1 have g1: "1 < length strs" "strs ! 1 = substr content (m ! 2) (m ! 3)"
    using submatchStrings_nth[of 1 m content] by (simp_all add: okPair_def strs_def)
  from p2 have g2: "2 < length strs" "strs ! 2 = substr content (m ! 4) (m ! 5)"
    using submatchStrings_nth[of 2 m content] by (simp_all add: okPair_def strs_def)
  from g1 g2 have i1: "index strs 1 = Inr (substr content (m ! 2) (m ! 3))"
    "index strs 2 = Inr (substr content (m ! 4) (m ! 5))"
    by (simp_all add: index_def)
  from p0 have i2: "index m 1 = Inr (m ! 1)"
    by (simp add: index_def okPair_def)
  show ?thesis
  proof (cases rest)
    case Nil
    from p0 have "slice content (m ! 1) (int (length content)) =
        Inr (substr content (m ! 1) (int (length content)))"
      by (intro slice_ok) (simp_all add: okPair_def)
    with Nil show ?thesis
      by (simp add: parseMarkdownChangelogWithDate_entry_def strs_def[symmetric] Let_def
          bindE_def i1 i2 datedEntry_def spanOf_def)
  next
    case (Cons n ms)
    from wf_next[OF assms[unfolded Cons]] have le: "m ! 1 \<le> n ! 0" and pn: "okPair content n 0"
      by simp_all
    from pn have i0: "index n 0 = Inr (n ! 0)"
      by (auto simp: index_def okPair_def)
    from p0 le pn have "slice content (m ! 1) (n ! 0) = Inr (substr content (m ! 1) (n ! 0))"
      by (intro slice_ok) (simp_all add: okPair_def)
    with Cons show ?thesis
      by (simp add: parseMarkdownChangelogWithDate_entry_def strs_def[symmetric] Let_def
          bindE_def i1 i2 i0 datedEntry_def spanOf_def)
  qed
qed

lemma dated_loop_ok:
  assumes "wfMatches 2 content lo ms"
  shows "parseMarkdownChangelogWithDate_loop content ms =
           Inr (map (datedEntry content ms) [0..<length ms])"
  using assms
proof (induction ms arbitrary: lo)
  case Nil
  show ?case by simp
next
  case (Cons m rest)
  have e: "parseMarkdownChangelogWithDate_entry content m rest =
        Inr (datedEntry content (m # rest) 0)"
    by (rule dated_entry_ok[OF Cons.prems])
  have r: "parseMarkdownChangelogWithDate_loop content rest =
           Inr (map (datedEntry content rest) [0..<length rest])"
    by (rule Cons.IH[OF wf_tail[OF Cons.prems]])
  show ?case
    by (simp add: e r upt_shift datedEntry_Suc del: upt_Suc)
qed

lemma substr_append_drop:
  assumes "0 \<le> a" "a \<le> b"
  shows "substr c a b @ drop (nat b) c = drop (nat a) c"
proof -
  from assms have e: "nat (b - a) + nat a = nat b" by simp
  show ?thesis
    unfolding substr_def
    using append_take_drop_id[of "nat (b - a)" "drop (nat a) c"] by (simp add: e)
qed

lemma substr_to_end:
  assumes "0 \<le> a"
  shows "substr c a (int (length c)) = drop (nat a) c"
  using assms by (simp add: substr_def)

lemma tile_Suc: "tile content (m # ms) (Suc i) = tile content ms i"
  by (simp add: tile_def spanOf_Suc matchTextOf_Suc)

lemma tiles_cover:
  assumes "wfMatches k content lo (m # rest)"
  shows "concat (map (tile content (m # rest)) [0..<length (m # rest)]) =
           drop (nat (m ! 1)) content"
  using assms
proof (induction rest arbitrary: m lo)
  case Nil
  have "okPair content m 0" using wf_okPair[OF Nil] by simp
  then show ?case
    by (simp add: tile_def spanOf_def substr_to_end okPair_def)
next
  case (Cons n ms)
  have p0: "okPair content m 0" using wf_okPair[OF Cons.prems] by simp
  from wf_next[OF Cons.prems] have le: "m ! 1 \<le> n ! 0" and pn: "okPair content n 0"
    by simp_all
  have ih: "concat (map (tile content (n # ms)) [0..<length (n # ms)]) =
           drop (nat (n ! 1)) content"
    by (rule Cons.IH[OF wf_tail[OF Cons.prems]])
  have t0: "tile content (m # n # ms) 0 =
        substr content (m ! 1) (n ! 0) @ substr content (n ! 0) (n ! 1)"
    by (simp add: tile_def spanOf_def matchTextOf_def)
  have "concat (map (tile content (m # n # ms)) [0..<length (m # n # ms)]) =
        tile content (m # n # ms) 0 @ concat (map (tile content (n # ms)) [0..<length (n # ms)])"
    using upt_shift[of "tile content (m # n # ms)" "length (n # ms)"]
    by (simp add: tile_Suc del: upt_Suc)
  also have "\<dots> = substr content (m ! 1) (n ! 0) @
        (substr content (n ! 0) (n ! 1) @ drop (nat (n ! 1)) content)"
    by (simp only: t0 ih append_assoc)
  also have "\<dots> = substr content (m ! 1) (n ! 0) @ drop (nat (n ! 0)) content"
    using pn by (simp add: substr_append_drop okPair_def)
  also have "\<dots> = drop (nat (m ! 1)) content"
    using p0 le by (simp add: substr_append_drop okPair_def)
  finally show ?case .
qed

lemma parseChanges_empty: "parseChanges [] = []"
  by code_simp

lemma match_okPair:
  assumes "n \<le> length s" "pos + length s = length content" "groupsOk k n gs" "j \<le> k"
  shows "okPair content (map (\<lambda>g. int (pos + g)) (0 # n # gs)) j"
proof (cases j)
  case 0
  with assms(1,2) show ?thesis by (simp add: okPair_def)
next
  case (Suc i)
  with assms(4) have i: "i < k" by simp
  with assms(3) have l: "2 * i + 1 < length gs"
    and g: "gs ! (2 * i) \<le> gs ! (2 * i + 1)" "gs ! (2 * i + 1) \<le> n"
    by (simp_all add: groupsOk_def)
  from l have l0: "2 * i < length gs" by simp
  from Suc l l0 g assms(1,2) show ?thesis
    by (simp add: okPair_def)
qed

lemma findAllAnchored_wf:
  "(\<forall>t n gs. m t = Some (n, gs) \<longrightarrow> groupsOk k n gs) \<Longrightarrow>
   pos + length s = length content \<Longrightarrow>
   wfMatches k content (int pos) (findAllAnchored m pos bol s)"
proof (induction m pos bol s rule: findAllAnchored.induct)
  case (1 m pos bol s)
  show ?case
  proof (cases s)
    case Nil
    then show ?thesis by (simp add: findAllAnchored.simps)
  next
    case (Cons c cs)
    show ?thesis
    proof (cases "if bol then m s else None")
      case None
      have "wfMatches k content (int (pos + 1)) (findAllAnchored m (pos + 1) (c = CHR 0x0A) cs)"
        using "1.IH"(1)[OF Cons None] "1.prems" Cons by simp
      then have "wfMatches k content (int pos) (findAllAnchored m (pos + 1) (c = CHR 0x0A) cs)"
        by (cases "findAllAnchored m (pos + 1) (c = CHR 0x0A) cs") simp_all
      moreover have "findAllAnchored m pos bol s =
          findAllAnchored m (pos + 1) (c = CHR 0x0A) cs"
        using Cons None by (subst findAllAnchored.simps) simp
      ultimately show ?thesis by simp
    next
      case (Some x)
      obtain n gs where x: "x = (n, gs)" by (cases x)
      from Some x have ms: "m s = Some (n, gs)" by (simp split: if_splits)
      with "1.prems"(1) have g: "groupsOk k n gs" by blast
      show ?thesis
      proof (cases "0 < n \<and> n \<le> length s")
        case False
        have "findAllAnchored m pos bol s = []"
          using Cons Some x False by (subst findAllAnchored.simps) simp
        then show ?thesis by simp
      next
        case True
        define M where "M = map (\<lambda>g. int (pos + g)) (0 # n # gs)"
        have ok: "list_all (okPair content M) [0..<Suc k]"
          unfolding M_def list_all_iff
          using match_okPair[OF _ "1.prems"(2) g] True by auto
        have M0: "M ! 0 = int pos" and M1: "M ! 1 = int (pos + n)"
          by (simp_all add: M_def)
        have "wfMatches k content (int (pos + n))
                (findAllAnchored m (pos + n) (s ! (n - 1) = CHR 0x0A) (drop n s))"
          using "1.IH"(2)[OF Cons Some x[symmetric] True] "1.prems" True by simp
        moreover have "findAllAnchored m pos bol s =
            M # findAllAnchored m (pos + n) (s ! (n - 1) = CHR 0x0A) (drop n s)"
          using Cons Some x True unfolding M_def by (subst findAllAnchored.simps) simp
        ultimately show ?thesis
          using ok M0 M1 by (simp del: upt_Suc)
      qed
    qed
  qed
qed

lemma matchClaudeHeader_groups:
  "matchClaudeHeader t = Some (n, gs) \<Longrightarrow> groupsOk 1 n gs"
  by (auto simp: matchClaudeHeader_def Let_def groupsOk_def split: if_splits option.splits)

lemma matchCopilotHeader_groups:
  "matchCopilotHeader t = Some (n, gs) \<Longrightarrow> groupsOk 2 n gs"
  by (auto simp: matchCopilotHeader_def Let_def groupsOk_def less_Suc_eq eval_nat_numeral
      split: if_splits option.splits)

lemma claudeVersionRegex_wf: "wfMatches 1 content 0 (claudeVersionRegex content)"
  using findAllAnchored_wf[of matchClaudeHeader 1 0 content content True]
    matchClaudeHeader_groups
  by (auto simp: claudeVersionRegex_def)

lemma copilotVersionRegex_wf: "wfMatches 2 content 0 (copilotVersionRegex content)"
  using findAllAnchored_wf[of matchCopilotHeader 2 0 content content True]
    matchCopilotHeader_groups
  by (auto simp: copilotVersionRegex_def)

lemma spanOf_adjacent:
  assumes "Suc i < length ms" "ms ! i ! 1 = ms ! Suc i ! 0"
  shows "spanOf content ms i = []"
  using assms by (simp add: spanOf_def substr_def)

lemma spansTile_undated:
  assumes "wfMatches 1 content lo ms"
  shows "spansTile content ms (map (undatedEntry content ms) [0..<length ms])"
proof -
  have t: "ms \<noteq> [] \<longrightarrow>
         concat (map (tile content ms) [0..<length ms]) = drop (nat (ms ! 0 ! 1)) content"
    using tiles_cover[of 1 content lo] assms by (cases ms) simp_all
  show ?thesis
    unfolding spansTile_def
    using t by (simp add: undatedEntry_def spanOf_adjacent parseChanges_empty del: upt_Suc)
qed

lemma spansTile_dated:
  assumes "wfMatches 2 content lo ms"
  shows "spansTile content ms (map (datedEntry content ms) [0..<length ms])"
proof -
  have t: "ms \<noteq> [] \<longrightarrow>
         concat (map (tile content ms) [0..<length ms]) = drop (nat (ms ! 0 ! 1)) content"
    using tiles_cover[of 2 content lo] assms by (cases ms) simp_all
  show ?thesis
    unfolding spansTile_def
    using t by (simp add: datedEntry_def spanOf_adjacent parseChanges_empty del: upt_Suc)
qed

text \<open>
  C4, as the code has it.  For every document and every pattern whose matches each carry
  group 1 (and group 2, for the dated variant), as those of the two patterns of the source
  do for every document, the flat parser returns one entry for each match, in the order of
  the document.  The changes of the \<open>i\<close>-th entry are the bullets of the span from
  the end of the \<open>i\<close>-th match to the start of the next match (the end of the
  document for the last).  The spans, each followed by the text of the next match, make up
  the content after the first match with no gap and no overlap.  A match that the next one
  follows at once yields an entry without changes, which is kept.
\<close>

theorem flat_parser_spans:
  "(wfMatches 1 content 0 (versionRegex content) \<longrightarrow>
      (\<exists>es. parseMarkdownChangelog content versionRegex = Inr es \<and>
            spansTile content (versionRegex content) es)) \<and>
   (wfMatches 2 content 0 (versionRegex content) \<longrightarrow>
      (\<exists>es. parseMarkdownChangelogWithDate content versionRegex = Inr es \<and>
            spansTile content (versionRegex content) es)) \<and>
   wfMatches 1 content 0 (claudeVersionRegex content) \<and>
   wfMatches 2 content 0 (copilotVersionRegex content)"
  using spansTile_undated[of content 0 "versionRegex content"]
    spansTile_dated[of content 0 "versionRegex content"]
    undated_loop_ok[of content 0 "versionRegex content"]
    dated_loop_ok[of content 0 "versionRegex content"]
    claudeVersionRegex_wf[of content] copilotVersionRegex_wf[of content]
  by (simp add: parseMarkdownChangelog_def parseMarkdownChangelogWithDate_def)

theorem flat_parser_spans_witness:
  "wfMatches 1 ''a;b;- x'' 0 [[0, 2, 0, 1], [2, 4, 2, 3]] \<and>
   parseMarkdownChangelog ''a;b;- x'' (\<lambda>c. [[0, 2, 0, 1], [2, 4, 2, 3]]) =
     Inr [\<lparr>Version = ''a'', ReleasedAt = zeroTime, Source = [], Sections = [], Changes = []\<rparr>,
          \<lparr>Version = ''b'', ReleasedAt = zeroTime, Source = [], Sections = [],
            Changes = [''x'']\<rparr>] \<and>
   spansTile ''a;b;- x'' [[0, 2, 0, 1], [2, 4, 2, 3]]
     [\<lparr>Version = ''a'', ReleasedAt = zeroTime, Source = [], Sections = [], Changes = []\<rparr>,
      \<lparr>Version = ''b'', ReleasedAt = zeroTime, Source = [], Sections = [],
        Changes = [''x'']\<rparr>] \<and>
   concat (map (tile ''a;b;- x'' [[0, 2, 0, 1], [2, 4, 2, 3]]) [0..<2]) = ''b;- x'' \<and>
   wfMatches 2 copilotExample 0 (copilotVersionRegex copilotExample) \<and>
   copilotVersionRegex copilotExample = [[6, 27, 9, 14, 17, 27], [32, 53, 35, 40, 43, 53]] \<and>
   (\<exists>es. parseMarkdownChangelogWithDate copilotExample copilotVersionRegex = Inr es \<and>
         spansTile copilotExample [[6, 27, 9, 14, 17, 27], [32, 53, 35, 40, 43, 53]] es) \<and>
   map (spanOf copilotExample [[6, 27, 9, 14, 17, 27], [32, 53, 35, 40, 43, 53]]) [0..<2] =
     [''\<newline>- x\<newline>'', ''\<newline>- y'']"
proof -
  have w: "wfMatches 1 ''a;b;- x'' 0 [[0, 2, 0, 1], [2, 4, 2, 3]]" by code_simp
  have r: "parseMarkdownChangelog ''a;b;- x'' (\<lambda>c. [[0, 2, 0, 1], [2, 4, 2, 3]]) =
     Inr [\<lparr>Version = ''a'', ReleasedAt = zeroTime, Source = [], Sections = [], Changes = []\<rparr>,
          \<lparr>Version = ''b'', ReleasedAt = zeroTime, Source = [], Sections = [],
            Changes = [''x'']\<rparr>]" by code_simp
  have c: "concat (map (tile ''a;b;- x'' [[0, 2, 0, 1], [2, 4, 2, 3]]) [0..<2]) = ''b;- x''"
    by code_simp
  from flat_parser_spans[of "''a;b;- x''" "\<lambda>c. [[0, 2, 0, 1], [2, 4, 2, 3]]"] w
  obtain es where "parseMarkdownChangelog ''a;b;- x'' (\<lambda>c. [[0, 2, 0, 1], [2, 4, 2, 3]]) = Inr es"
    and "spansTile ''a;b;- x'' [[0, 2, 0, 1], [2, 4, 2, 3]] es" by blast
  with r have u: "spansTile ''a;b;- x'' [[0, 2, 0, 1], [2, 4, 2, 3]]
     [\<lparr>Version = ''a'', ReleasedAt = zeroTime, Source = [], Sections = [], Changes = []\<rparr>,
      \<lparr>Version = ''b'', ReleasedAt = zeroTime, Source = [], Sections = [],
        Changes = [''x'']\<rparr>]" by simp
  have m: "copilotVersionRegex copilotExample =
      [[6, 27, 9, 14, 17, 27], [32, 53, 35, 40, 43, 53]]" by code_simp
  have w2: "wfMatches 2 copilotExample 0 (copilotVersionRegex copilotExample)"
    unfolding m by code_simp
  from flat_parser_spans[of copilotExample copilotVersionRegex] w2
  have d: "\<exists>es. parseMarkdownChangelogWithDate copilotExample copilotVersionRegex = Inr es \<and>
         spansTile copilotExample [[6, 27, 9, 14, 17, 27], [32, 53, 35, 40, 43, 53]] es"
    unfolding m by blast
  have sp: "map (spanOf copilotExample [[6, 27, 9, 14, 17, 27], [32, 53, 35, 40, 43, 53]])
      [0..<2] = [''\<newline>- x\<newline>'', ''\<newline>- y'']" by code_simp
  from w r u c w2 m d sp show ?thesis by blast
qed

text \<open>C4 as stated fails: the spans alone do not make up the content after the first
  match, since they leave out the texts of the later matches; and a pattern without a group
  makes the parser panic.\<close>

theorem spans_alone_do_not_tile:
  "claudeVersionRegex ''## 1.0.0\<newline>- a\<newline>## 0.9.0\<newline>- b'' =
     [[0, 8, 3, 8], [13, 21, 16, 21]] \<and>
   concat (map (spanOf ''## 1.0.0\<newline>- a\<newline>## 0.9.0\<newline>- b''
                 [[0, 8, 3, 8], [13, 21, 16, 21]]) [0..<2]) =
     ''\<newline>- a\<newline>\<newline>- b'' \<and>
   drop 8 ''## 1.0.0\<newline>- a\<newline>## 0.9.0\<newline>- b'' = ''\<newline>- a\<newline>## 0.9.0\<newline>- b'' \<and>
   concat (map (spanOf ''## 1.0.0\<newline>- a\<newline>## 0.9.0\<newline>- b''
                 [[0, 8, 3, 8], [13, 21, 16, 21]]) [0..<2]) \<noteq>
     drop 8 ''## 1.0.0\<newline>- a\<newline>## 0.9.0\<newline>- b'' \<and>
   parseMarkdownChangelog ''abc'' (\<lambda>c. [[0, 3]]) = Inl IndexOutOfRange"
  by code_simp

lemma time_Parse_date_dateOnly:
  assumes "time_Parse_date s = Inr t"
  shows "dateOnly t"
  using assms
  by (auto simp: time_Parse_date_def dateOnly_def Let_def split: if_splits sum.splits prod.splits)

lemma dropError_dateOnly: "dateOnly (dropError (time_Parse_date s))"
  using time_Parse_date_dateOnly[of s]
  by (auto simp: dropError_def dateOnly_def zeroTime_def split: sum.splits)

lemma bindE_Inr: "bindE r f = Inr y \<Longrightarrow> \<exists>x. r = Inr x \<and> f x = Inr y"
  by (cases r) (simp_all add: bindE_def)

lemma dated_entry_dateOnly:
  assumes "parseMarkdownChangelogWithDate_entry content m rest = Inr e"
  shows "dateOnly (ReleasedAt e)"
proof -
  from assms obtain c where "ReleasedAt e = dropError (time_Parse_date c)"
    unfolding parseMarkdownChangelogWithDate_entry_def Let_def
    by (auto dest!: bindE_Inr)
  then show ?thesis by (auto simp: dropError_dateOnly)
qed

lemma dated_loop_dateOnly:
  assumes "parseMarkdownChangelogWithDate_loop content ms = Inr es"
  shows "list_all (\<lambda>e. dateOnly (ReleasedAt e)) es"
  using assms
proof (induction ms arbitrary: es)
  case Nil
  then show ?case by simp
next
  case (Cons m rest)
  then show ?case
    by (auto split: sum.splits dest: dated_entry_dateOnly)
qed

lemma dated_nth:
  assumes "wfMatches 2 content 0 (re content)" and "i < length (re content)"
  shows "\<exists>es. parseMarkdownChangelogWithDate content re = Inr es \<and>
           length es = length (re content) \<and> es ! i = datedEntry content (re content) i"
  using dated_loop_ok[OF assms(1)] assms(2)
  by (simp add: parseMarkdownChangelogWithDate_def del: upt_Suc)

text \<open>
  C8.  The document \<^verbatim>\<open>## 1.5.0 - 2025-03-10\<close> under the pattern of
  \<^verbatim>\<open>fetchCopilotChangelog\<close> yields one entry with version
  \<^verbatim>\<open>1.5.0\<close>, released on March 10, 2025 at 00:00:00 UTC; so does every match
  whose groups are these two texts.  The release time of every entry of the dated variant
  has no time of day and no zone offset.
\<close>

theorem dated_header_date:
  "parseMarkdownChangelogWithDate ''## 1.5.0 - 2025-03-10'' copilotVersionRegex =
     Inr [\<lparr>Version = ''1.5.0'',
           ReleasedAt = \<lparr>year = 2025, month = 3, day = 10, hour = 0, minute = 0, second = 0,
                          nanosecond = 0, zoneOffset = 0\<rparr>,
           Source = [], Sections = [], Changes = []\<rparr>] \<and>
   (wfMatches 2 content 0 (re content) \<and> i < length (re content) \<and>
    substr content (re content ! i ! 2) (re content ! i ! 3) = ''1.5.0'' \<and>
    substr content (re content ! i ! 4) (re content ! i ! 5) = ''2025-03-10'' \<longrightarrow>
      (\<exists>es. parseMarkdownChangelogWithDate content re = Inr es \<and> i < length es \<and>
            Version (es ! i) = ''1.5.0'' \<and>
            ReleasedAt (es ! i) =
              \<lparr>year = 2025, month = 3, day = 10, hour = 0, minute = 0, second = 0,
               nanosecond = 0, zoneOffset = 0\<rparr>)) \<and>
   (parseMarkdownChangelogWithDate content re = Inr es \<and> e \<in> set es \<longrightarrow>
      hour (ReleasedAt e) = 0 \<and> minute (ReleasedAt e) = 0 \<and> second (ReleasedAt e) = 0 \<and>
      nanosecond (ReleasedAt e) = 0 \<and> zoneOffset (ReleasedAt e) = 0)"
proof -
  have a: "parseMarkdownChangelogWithDate ''## 1.5.0 - 2025-03-10'' copilotVersionRegex =
     Inr [\<lparr>Version = ''1.5.0'',
           ReleasedAt = \<lparr>year = 2025, month = 3, day = 10, hour = 0, minute = 0, second = 0,
                          nanosecond = 0, zoneOffset = 0\<rparr>,
           Source = [], Sections = [], Changes = []\<rparr>]"
    by code_simp
  have d: "dropError (time_Parse_date ''2025-03-10'') =
      \<lparr>year = 2025, month = 3, day = 10, hour = 0, minute = 0, second = 0,
       nanosecond = 0, zoneOffset = 0\<rparr>"
    by code_simp
  have b: "wfMatches 2 content 0 (re content) \<and> i < length (re content) \<and>
    substr content (re content ! i ! 2) (re content ! i ! 3) = ''1.5.0'' \<and>
    substr content (re content ! i ! 4) (re content ! i ! 5) = ''2025-03-10'' \<longrightarrow>
      (\<exists>es. parseMarkdownChangelogWithDate content re = Inr es \<and> i < length es \<and>
            Version (es ! i) = ''1.5.0'' \<and>
            ReleasedAt (es ! i) =
              \<lparr>year = 2025, month = 3, day = 10, hour = 0, minute = 0, second = 0,
               nanosecond = 0, zoneOffset = 0\<rparr>)"
  proof
    assume h: "wfMatches 2 content 0 (re content) \<and> i < length (re content) \<and>
      substr content (re content ! i ! 2) (re content ! i ! 3) = ''1.5.0'' \<and>
      substr content (re content ! i ! 4) (re content ! i ! 5) = ''2025-03-10''"
    then obtain es where es: "parseMarkdownChangelogWithDate content re = Inr es"
      "length es = length (re content)" "es ! i = datedEntry content (re content) i"
      using dated_nth[of content re i] by blast
    from h have "Version (datedEntry content (re content) i) = ''1.5.0''"
      "ReleasedAt (datedEntry content (re content) i) =
         \<lparr>year = 2025, month = 3, day = 10, hour = 0, minute = 0, second = 0,
          nanosecond = 0, zoneOffset = 0\<rparr>"
      by (simp_all add: datedEntry_def d)
    with es h show "\<exists>es. parseMarkdownChangelogWithDate content re = Inr es \<and> i < length es \<and>
            Version (es ! i) = ''1.5.0'' \<and>
            ReleasedAt (es ! i) =
              \<lparr>year = 2025, month = 3, day = 10, hour = 0, minute = 0, second = 0,
               nanosecond = 0, zoneOffset = 0\<rparr>"
      by simp
  qed
  have c: "parseMarkdownChangelogWithDate content re = Inr es \<and> e \<in> set es \<longrightarrow>
      hour (ReleasedAt e) = 0 \<and> minute (ReleasedAt e) = 0 \<and> second (ReleasedAt e) = 0 \<and>
      nanosecond (ReleasedAt e) = 0 \<and> zoneOffset (ReleasedAt e) = 0"
    using dated_loop_dateOnly[of content "re content" es]
    by (auto simp: parseMarkdownChangelogWithDate_def list_all_iff dateOnly_def)
  from a b c show ?thesis by blast
qed

theorem dated_header_date_witness:
  "wfMatches 2 copilotExample 0 (copilotVersionRegex copilotExample) \<and>
   copilotVersionRegex copilotExample = [[6, 27, 9, 14, 17, 27], [32, 53, 35, 40, 43, 53]] \<and>
   substr copilotExample 9 14 = ''1.5.0'' \<and> substr copilotExample 17 27 = ''2025-03-10'' \<and>
   parseMarkdownChangelogWithDate copilotExample copilotVersionRegex =
     Inr [\<lparr>Version = ''1.5.0'',
           ReleasedAt = \<lparr>year = 2025, month = 3, day = 10, hour = 0, minute = 0, second = 0,
                          nanosecond = 0, zoneOffset = 0\<rparr>,
           Source = [], Sections = [], Changes = [''x'']\<rparr>,
          \<lparr>Version = ''1.4.0'',
           ReleasedAt = \<lparr>year = 2025, month = 2, day = 1, hour = 0, minute = 0, second = 0,
                          nanosecond = 0, zoneOffset = 0\<rparr>,
           Source = [], Sections = [], Changes = [''y'']\<rparr>] \<and>
   (\<exists>es. parseMarkdownChangelogWithDate copilotExample copilotVersionRegex = Inr es \<and>
         Version (es ! 0) = ''1.5.0'' \<and>
         ReleasedAt (es ! 0) =
           \<lparr>year = 2025, month = 3, day = 10, hour = 0, minute = 0, second = 0,
            nanosecond = 0, zoneOffset = 0\<rparr> \<and>
         hour (ReleasedAt (es ! 1)) = 0 \<and> zoneOffset (ReleasedAt (es ! 1)) = 0)"
proof -
  have m: "copilotVersionRegex copilotExample =
      [[6, 27, 9, 14, 17, 27], [32, 53, 35, 40, 43, 53]]"
    by code_simp
  have w: "wfMatches 2 copilotExample 0 (copilotVersionRegex copilotExample)"
    unfolding m by code_simp
  have s1: "substr copilotExample 9 14 = ''1.5.0''"
    and s2: "substr copilotExample 17 27 = ''2025-03-10''"
    by code_simp+
  have r: "parseMarkdownChangelogWithDate copilotExample copilotVersionRegex =
     Inr [\<lparr>Version = ''1.5.0'',
           ReleasedAt = \<lparr>year = 2025, month = 3, day = 10, hour = 0, minute = 0, second = 0,
                          nanosecond = 0, zoneOffset = 0\<rparr>,
           Source = [], Sections = [], Changes = [''x'']\<rparr>,
          \<lparr>Version = ''1.4.0'',
           ReleasedAt = \<lparr>year = 2025, month = 2, day = 1, hour = 0, minute = 0, second = 0,
                          nanosecond = 0, zoneOffset = 0\<rparr>,
           Source = [], Sections = [], Changes = [''y'']\<rparr>]"
    by code_simp
  define e2 where "e2 = \<lparr>Version = ''1.4.0'',
        ReleasedAt = \<lparr>year = 2025, month = 2, day = 1, hour = 0, minute = 0, second = 0,
                       nanosecond = 0, zoneOffset = 0\<rparr>,
        Source = [], Sections = [], Changes = [''y'']\<rparr>"
  note th = dated_header_date[of copilotExample copilotVersionRegex 0 _ e2]
  from th w s1 s2
  have a: "\<exists>es. parseMarkdownChangelogWithDate copilotExample copilotVersionRegex = Inr es \<and>
         0 < length es \<and> Version (es ! 0) = ''1.5.0'' \<and>
         ReleasedAt (es ! 0) =
           \<lparr>year = 2025, month = 3, day = 10, hour = 0, minute = 0, second = 0,
            nanosecond = 0, zoneOffset = 0\<rparr>"
    by (simp add: m)
  from th[of "[\<lparr>Version = ''1.5.0'',
           ReleasedAt = \<lparr>year = 2025, month = 3, day = 10, hour = 0, minute = 0, second = 0,
                          nanosecond = 0, zoneOffset = 0\<rparr>,
           Source = [], Sections = [], Changes = [''x'']\<rparr>, e2]"] r
  have c: "hour (ReleasedAt e2) = 0 \<and> zoneOffset (ReleasedAt e2) = 0"
    by (simp add: e2_def)
  from a r c have b:
    "\<exists>es. parseMarkdownChangelogWithDate copilotExample copilotVersionRegex = Inr es \<and>
         Version (es ! 0) = ''1.5.0'' \<and>
         ReleasedAt (es ! 0) =
           \<lparr>year = 2025, month = 3, day = 10, hour = 0, minute = 0, second = 0,
            nanosecond = 0, zoneOffset = 0\<rparr> \<and>
         hour (ReleasedAt (es ! 1)) = 0 \<and> zoneOffset (ReleasedAt (es ! 1)) = 0"
    by (auto simp: e2_def)
  from w m s1 s2 r b show ?thesis by blast
qed

lemma headerRegex_length:
  assumes "headerRegex_FindStringSubmatch t = Some match"
  shows "length match = 2"
  using assms
  by (auto simp: headerRegex_FindStringSubmatch_def Let_def split: if_splits)

lemma parseLine_no_header_sections:
  assumes "headerOf line = None" and "currentSection st = None"
  shows "currentSection (parseLine st line) = None \<and> sections (parseLine st line) = sections st"
  using assms by (auto simp: headerOf_def parseLine_def Let_def split: option.splits)

lemma foldl_no_header_sections:
  assumes "list_all (\<lambda>l. headerOf l = None) ls" and "currentSection st = None"
  shows "currentSection (foldl parseLine st ls) = None \<and>
         sections (foldl parseLine st ls) = sections st"
  using assms
proof (induction ls arbitrary: st)
  case Nil
  then show ?case by simp
next
  case (Cons l ls)
  from Cons.prems have h: "headerOf l = None" and r: "list_all (\<lambda>l. headerOf l = None) ls"
    by simp_all
  from parseLine_no_header_sections[OF h Cons.prems(2)] Cons.IH[OF r, of "parseLine st l"]
  show ?case by simp
qed

text \<open>
  A match of either pattern of the source is not empty and lies within the text, so that
  \<open>findAllAnchored\<close> never takes its last branch for them; and neither pattern
  matches in a document without the character \<^verbatim>\<open>#\<close>.
\<close>

lemma takeWhile_dropWhile_length:
  "length (takeWhile P xs) + length (dropWhile P xs) = length xs"
proof -
  have "length (takeWhile P xs @ dropWhile P xs) = length xs"
    by (simp only: takeWhile_dropWhile_id)
  then show ?thesis by (simp only: length_append)
qed

lemma matchSpacesEOL_le:
  assumes "matchSpacesEOL r = Some k"
  shows "k \<le> length r"
proof -
  have w: "length (takeWhile reSpace r) \<le> length r"
    by (rule length_takeWhile_le)
  have d: "length (dropWhile (\<lambda>c. c \<noteq> CHR 0x0A) (rev (takeWhile reSpace r))) \<le>
        length (takeWhile reSpace r)"
    using length_dropWhile_le[of "\<lambda>c. c \<noteq> CHR 0x0A" "rev (takeWhile reSpace r)"] by simp
  from assms w d show ?thesis
    by (auto simp: matchSpacesEOL_def Let_def split: if_splits list.splits)
qed

lemma HasPrefix_length: "HasPrefix s p \<Longrightarrow> length (drop (length p) s) + length p = length s"
  by (simp add: HasPrefix_def)

lemma matchClaudeHeader_length:
  assumes "matchClaudeHeader s = Some (n, gs)"
  shows "0 < n \<and> n \<le> length s"
proof -
  define r0 where "r0 = drop 3 s"
  define r1 where "r1 = dropWhile isDigit r0"
  define r2 where "r2 = drop 1 r1"
  define r3 where "r3 = dropWhile isDigit r2"
  define r4 where "r4 = drop 1 r3"
  define r5 where "r5 = dropWhile isDigit r4"
  from assms have p: "HasPrefix s ''## ''" "HasPrefix r1 ''.''" "HasPrefix r3 ''.''"
    and k: "\<exists>k. matchSpacesEOL r5 = Some k \<and>
          n = 3 + (length (takeWhile isDigit r0) + 1 + length (takeWhile isDigit r2) + 1 +
                   length (takeWhile isDigit r4)) + k"
    unfolding matchClaudeHeader_def Let_def r0_def r1_def r2_def r3_def r4_def r5_def
    by (auto split: if_splits option.splits)
  from k obtain k where k1: "matchSpacesEOL r5 = Some k"
    and n: "n = 3 + (length (takeWhile isDigit r0) + 1 + length (takeWhile isDigit r2) + 1 +
                   length (takeWhile isDigit r4)) + k" by blast
  have l0: "length r0 + 3 = length s"
    using HasPrefix_length[OF p(1)] by (simp add: r0_def eval_nat_numeral)
  have l1: "length (takeWhile isDigit r0) + length r1 = length r0"
    unfolding r1_def by (rule takeWhile_dropWhile_length)
  have l2: "length r2 + 1 = length r1"
    using HasPrefix_length[OF p(2)] by (simp add: r2_def)
  have l3: "length (takeWhile isDigit r2) + length r3 = length r2"
    unfolding r3_def by (rule takeWhile_dropWhile_length)
  have l4: "length r4 + 1 = length r3"
    using HasPrefix_length[OF p(3)] by (simp add: r4_def)
  have l5: "length (takeWhile isDigit r4) + length r5 = length r4"
    unfolding r5_def by (rule takeWhile_dropWhile_length)
  from matchSpacesEOL_le[OF k1] n l0 l1 l2 l3 l4 l5 show ?thesis by linarith
qed

lemma matchCopilotHeader_length:
  assumes "matchCopilotHeader s = Some (n, gs)"
  shows "0 < n \<and> n \<le> length s"
proof -
  define r0 where "r0 = drop 3 s"
  define r1 where "r1 = dropWhile (\<lambda>c. isDigit c \<or> c = CHR ''.'') r0"
  define r2 where "r2 = drop 3 r1"
  define v where "v = length (takeWhile (\<lambda>c. isDigit c \<or> c = CHR ''.'') r0)"
  from assms have p: "HasPrefix s ''## ''" "HasPrefix r1 '' - ''" "isDateShape (take 10 r2)"
    and k: "\<exists>k. matchSpacesEOL (drop 10 r2) = Some k \<and> n = 3 + v + 3 + 10 + k"
    unfolding matchCopilotHeader_def Let_def r0_def r1_def r2_def v_def
    by (auto split: if_splits option.splits)
  from k obtain k where k1: "matchSpacesEOL (drop 10 r2) = Some k"
    and n: "n = 3 + v + 3 + 10 + k" by blast
  have l0: "length r0 + 3 = length s"
    using HasPrefix_length[OF p(1)] by (simp add: r0_def eval_nat_numeral)
  have l1: "v + length r1 = length r0"
    unfolding r1_def v_def by (rule takeWhile_dropWhile_length)
  have l2: "length r2 + 3 = length r1"
    using HasPrefix_length[OF p(2)] by (simp add: r2_def eval_nat_numeral)
  from p(3) have "min (length r2) 10 = 10" by (simp add: isDateShape_def)
  then have l3: "10 \<le> length r2" by linarith
  have l4: "k \<le> length r2 - 10" using matchSpacesEOL_le[OF k1] by simp
  from n l0 l1 l2 l3 l4 show ?thesis by linarith
qed


lemma findAllAnchored_none:
  "(\<forall>t n gs. m t = Some (n, gs) \<longrightarrow> HasPrefix t ''## '') \<Longrightarrow> CHR ''#'' \<notin> set s \<Longrightarrow>
   findAllAnchored m pos bol s = []"
proof (induction m pos bol s rule: findAllAnchored.induct)
  case (1 m pos bol s)
  show ?case
  proof (cases s)
    case Nil
    then show ?thesis by (subst findAllAnchored.simps) simp
  next
    case (Cons c cs)
    with "1.prems"(2) have "\<not> HasPrefix s ''## ''"
      by (auto simp: HasPrefix_Cons)
    with "1.prems"(1) have "m s = None"
      by (cases "m s") auto
    then have n: "(if bol then m s else None) = None" by simp
    have "findAllAnchored m (pos + 1) (c = CHR 0x0A) cs = []"
      using "1.IH"(1)[OF Cons n] "1.prems" Cons by simp
    moreover have "findAllAnchored m pos bol s =
          findAllAnchored m (pos + 1) (c = CHR 0x0A) cs"
      using Cons n by (subst findAllAnchored.simps) simp
    ultimately show ?thesis by simp
  qed
qed

lemma matchers_need_marker:
  "matchClaudeHeader t = Some (n, gs) \<longrightarrow> HasPrefix t ''## ''"
  "matchCopilotHeader t = Some (n, gs) \<longrightarrow> HasPrefix t ''## ''"
  by (auto simp: matchClaudeHeader_def matchCopilotHeader_def split: if_splits)

lemma no_hash_no_match:
  assumes "CHR ''#'' \<notin> set content"
  shows "claudeVersionRegex content = []" and "copilotVersionRegex content = []"
  using findAllAnchored_none[of matchClaudeHeader content 0 True]
    findAllAnchored_none[of matchCopilotHeader content 0 True] matchers_need_marker assms
  by (auto simp: claudeVersionRegex_def copilotVersionRegex_def)

text \<open>
  C9.  The flat parser returns entries, and does not panic, for every document under each
  of the two patterns of the source, and under every pattern whose matches carry the groups
  it reads; with no match, as in a document without \<^verbatim>\<open>#\<close>, it returns no
  entry.  On the empty document every parser returns
  an empty result.  In the hierarchical parser \<^verbatim>\<open>match[1]\<close> is always in
  range, and a body without a header line yields no section.
\<close>

theorem parsers_total:
  "(\<exists>es. parseMarkdownChangelog content claudeVersionRegex = Inr es) \<and>
   (\<exists>es. parseMarkdownChangelogWithDate content copilotVersionRegex = Inr es) \<and>
   (wfMatches 1 content 0 (re content) \<longrightarrow>
      (\<exists>es. parseMarkdownChangelog content re = Inr es)) \<and>
   (wfMatches 2 content 0 (re content) \<longrightarrow>
      (\<exists>es. parseMarkdownChangelogWithDate content re = Inr es)) \<and>
   (re content = [] \<longrightarrow>
      parseMarkdownChangelog content re = Inr [] \<and>
      parseMarkdownChangelogWithDate content re = Inr []) \<and>
   (CHR ''#'' \<notin> set content \<longrightarrow>
      parseMarkdownChangelog content claudeVersionRegex = Inr [] \<and>
      parseMarkdownChangelogWithDate content copilotVersionRegex = Inr []) \<and>
   parseMarkdownChangelog [] claudeVersionRegex = Inr [] \<and>
   parseMarkdownChangelogWithDate [] copilotVersionRegex = Inr [] \<and>
   parseChanges [] = [] \<and>
   parseReleaseBody [] = ([], []) \<and>
   (headerRegex_FindStringSubmatch t = Some match \<longrightarrow> 1 < length match) \<and>
   (list_all (\<lambda>l. headerOf l = None) (Split body CHR 0x0A) \<longrightarrow>
      fst (parseReleaseBody body) = [])"
proof -
  have a: "wfMatches 1 c 0 (r c) \<longrightarrow> (\<exists>es. parseMarkdownChangelog c r = Inr es)" for c r
    using undated_loop_ok[of c 0 "r c"] by (simp add: parseMarkdownChangelog_def)
  have b: "wfMatches 2 c 0 (r c) \<longrightarrow> (\<exists>es. parseMarkdownChangelogWithDate c r = Inr es)"
    for c r
    using dated_loop_ok[of c 0 "r c"] by (simp add: parseMarkdownChangelogWithDate_def)
  have c: "re content = [] \<longrightarrow>
      parseMarkdownChangelog content re = Inr [] \<and>
      parseMarkdownChangelogWithDate content re = Inr []"
    by (simp add: parseMarkdownChangelog_def parseMarkdownChangelogWithDate_def)
  have d: "parseMarkdownChangelog [] claudeVersionRegex = Inr []"
    "parseMarkdownChangelogWithDate [] copilotVersionRegex = Inr []"
    "parseReleaseBody [] = ([], [])"
    by code_simp+
  have e: "headerRegex_FindStringSubmatch t = Some match \<longrightarrow> 1 < length match"
    using headerRegex_length[of t match] by simp
  have f: "list_all (\<lambda>l. headerOf l = None) (Split body CHR 0x0A) \<longrightarrow>
      fst (parseReleaseBody body) = []"
    using foldl_no_header_sections[of "Split body CHR 0x0A" scan0]
    by (simp add: parseReleaseBody_def parseLines_def Let_def flush_def scan0_def)
  have g: "CHR ''#'' \<notin> set content \<longrightarrow>
      parseMarkdownChangelog content claudeVersionRegex = Inr [] \<and>
      parseMarkdownChangelogWithDate content copilotVersionRegex = Inr []"
    using no_hash_no_match[of content]
    by (simp add: parseMarkdownChangelog_def parseMarkdownChangelogWithDate_def)
  from a[of content claudeVersionRegex] claudeVersionRegex_wf[of content]
    b[of content copilotVersionRegex] copilotVersionRegex_wf[of content]
    a[of content re] b[of content re] c d parseChanges_empty e f g
  show ?thesis by blast
qed

theorem parsers_total_witness:
  "claudeVersionRegex ''no header here'' = [] \<and>
   CHR ''#'' \<notin> set ''- no header here'' \<and>
   parseMarkdownChangelog ''- no header here'' claudeVersionRegex = Inr [] \<and>
   parseMarkdownChangelogWithDate ''- no header here'' copilotVersionRegex = Inr [] \<and>
   parseMarkdownChangelog ''no header here'' claudeVersionRegex = Inr [] \<and>
   parseMarkdownChangelogWithDate ''no header here'' claudeVersionRegex = Inr [] \<and>
   wfMatches 2 ''## 1.0 - 2025-01-01'' 0 (copilotVersionRegex ''## 1.0 - 2025-01-01'') \<and>
   (\<exists>es. parseMarkdownChangelog ''## 1.0 - 2025-01-01'' copilotVersionRegex = Inr es) \<and>
   (\<exists>es. parseMarkdownChangelogWithDate ''## 1.0 - 2025-01-01'' copilotVersionRegex = Inr es) \<and>
   headerRegex_FindStringSubmatch ''# x'' = Some [''# x'', ''x''] \<and>
   list_all (\<lambda>l. headerOf l = None) (Split ''#prose\<newline>- a'' CHR 0x0A) \<and>
   fst (parseReleaseBody ''#prose\<newline>- a'') = []"
proof -
  have z: "claudeVersionRegex ''no header here'' = []" by code_simp
  have w2: "wfMatches 2 ''## 1.0 - 2025-01-01'' 0 (copilotVersionRegex ''## 1.0 - 2025-01-01'')"
    by code_simp
  have w1: "wfMatches 1 ''## 1.0 - 2025-01-01'' 0 (copilotVersionRegex ''## 1.0 - 2025-01-01'')"
    by code_simp
  have h: "headerRegex_FindStringSubmatch ''# x'' = Some [''# x'', ''x'']" by code_simp
  have l: "list_all (\<lambda>l. headerOf l = None) (Split ''#prose\<newline>- a'' CHR 0x0A)" by code_simp
  note t1 = parsers_total[of "''no header here''" claudeVersionRegex "''# x''" "[''# x'', ''x'']"
      "''#prose\<newline>- a''"]
  note t2 = parsers_total[of "''## 1.0 - 2025-01-01''" copilotVersionRegex "''# x''"
      "[''# x'', ''x'']" "''#prose\<newline>- a''"]
  from t1 z have a: "parseMarkdownChangelog ''no header here'' claudeVersionRegex = Inr []"
    "parseMarkdownChangelogWithDate ''no header here'' claudeVersionRegex = Inr []"
    by blast+
  from t2 w1 w2 have b:
    "\<exists>es. parseMarkdownChangelog ''## 1.0 - 2025-01-01'' copilotVersionRegex = Inr es"
    "\<exists>es. parseMarkdownChangelogWithDate ''## 1.0 - 2025-01-01'' copilotVersionRegex = Inr es"
    by blast+
  from t1 l have c: "fst (parseReleaseBody ''#prose\<newline>- a'') = []" by blast
  have n: "CHR ''#'' \<notin> set ''- no header here''" by simp
  from parsers_total[of "''- no header here''" claudeVersionRegex "''# x''" "[''# x'', ''x'']"
      "''#prose\<newline>- a''"] n
  have d: "parseMarkdownChangelog ''- no header here'' claudeVersionRegex = Inr []"
    "parseMarkdownChangelogWithDate ''- no header here'' copilotVersionRegex = Inr []"
    by blast+
  from z a w2 b h l c n d show ?thesis by blast
qed

lemma length_10:
  assumes "length d = 10"
  obtains a0 a1 a2 a3 a4 a5 a6 a7 a8 a9 where "d = [a0, a1, a2, a3, a4, a5, a6, a7, a8, a9]"
  using assms by (auto simp: length_Suc_conv eval_nat_numeral)

lemma time_Parse_date_shape:
  assumes "isDateShape d"
  shows "time_Parse_date d =
     (if dateMonth d \<le> 0 \<or> 12 < dateMonth d then Inl MonthOutOfRange
      else if dateDay d < 1 \<or> daysIn (dateMonth d) (dateYear d) < dateDay d then Inl DayOutOfRange
      else Inr \<lparr>year = dateYear d, month = dateMonth d, day = dateDay d, hour = 0, minute = 0,
                second = 0, nanosecond = 0, zoneOffset = 0\<rparr>)"
proof -
  from assms have "length d = 10" by (simp add: isDateShape_def)
  then obtain a0 a1 a2 a3 a4 a5 a6 a7 a8 a9
    where d: "d = [a0, a1, a2, a3, a4, a5, a6, a7, a8, a9]" by (rule length_10)
  from assms show ?thesis
    unfolding d
    by (simp add: isDateShape_def time_Parse_date_def skipDash_def getnum2_def Let_def
        dateMonth_def dateDay_def dateYear_def)
qed

lemma findAllAnchored_member:
  "s = drop pos content \<Longrightarrow> M \<in> set (findAllAnchored m pos bol s) \<Longrightarrow>
   \<exists>p n gs. m (drop p content) = Some (n, gs) \<and> M = map (\<lambda>g. int (p + g)) (0 # n # gs)"
proof (induction m pos bol s rule: findAllAnchored.induct)
  case (1 m pos bol s)
  show ?case
  proof (cases s)
    case Nil
    with "1.prems"(2) show ?thesis by (simp add: findAllAnchored.simps)
  next
    case (Cons c cs)
    from Cons "1.prems"(1) have cs: "cs = drop (pos + 1) content"
      by (metis Suc_eq_plus1 drop_Suc list.sel(3) tl_drop)
    show ?thesis
    proof (cases "if bol then m s else None")
      case None
      have "findAllAnchored m pos bol s =
          findAllAnchored m (pos + 1) (c = CHR 0x0A) cs"
        using Cons None by (subst findAllAnchored.simps) simp
      with "1.prems"(2) have "M \<in> set (findAllAnchored m (pos + 1) (c = CHR 0x0A) cs)"
        by simp
      from "1.IH"(1)[OF Cons None cs this] show ?thesis .
    next
      case (Some x)
      obtain n gs where x: "x = (n, gs)" by (cases x)
      from Some x have ms: "m s = Some (n, gs)" by (simp split: if_splits)
      show ?thesis
      proof (cases "0 < n \<and> n \<le> length s")
        case False
        have "findAllAnchored m pos bol s = []"
          using Cons Some x False by (subst findAllAnchored.simps) simp
        with "1.prems"(2) show ?thesis by simp
      next
        case True
        have eq: "findAllAnchored m pos bol s =
            map (\<lambda>g. int (pos + g)) (0 # n # gs) #
            findAllAnchored m (pos + n) (s ! (n - 1) = CHR 0x0A) (drop n s)"
          using Cons Some x True by (subst findAllAnchored.simps) simp
        from "1.prems"(2)[unfolded eq]
        consider "M = map (\<lambda>g. int (pos + g)) (0 # n # gs)"
          | "M \<in> set (findAllAnchored m (pos + n) (s ! (n - 1) = CHR 0x0A) (drop n s))"
          by auto
        then show ?thesis
        proof cases
          case 1
          with ms "1.prems"(1) show ?thesis by blast
        next
          case 2
          have d: "drop n s = drop (pos + n) content"
            using "1.prems"(1) by (simp add: add.commute)
          from "1.IH"(2)[OF Cons Some x[symmetric] True d 2] show ?thesis .
        qed
      qed
    qed
  qed
qed

lemma matchCopilotHeader_date:
  assumes "matchCopilotHeader t = Some (n, gs)"
  shows "\<exists>v. gs = [3, 3 + v, 3 + v + 3, 3 + v + 3 + 10] \<and>
             isDateShape (take 10 (drop (3 + v + 3) t))"
proof -
  define P where "P = (\<lambda>c. isDigit c \<or> c = CHR ''.'')"
  define v where "v = length (takeWhile P (drop 3 t))"
  have r: "drop 3 (dropWhile P (drop 3 t)) = drop (3 + v + 3) t"
    by (simp add: dropWhile_eq_drop v_def add.commute)
  from assms have "gs = [3, 3 + v, 3 + v + 3, 3 + v + 3 + 10]"
    and "isDateShape (take 10 (drop 3 (dropWhile P (drop 3 t))))"
    unfolding matchCopilotHeader_def Let_def P_def[symmetric] v_def[symmetric]
    by (auto split: if_splits option.splits)
  with r show ?thesis by auto
qed

lemma copilot_date_shape:
  assumes "i < length (copilotVersionRegex content)"
  shows "isDateShape (substr content (copilotVersionRegex content ! i ! 4)
                        (copilotVersionRegex content ! i ! 5))"
proof -
  define M where "M = copilotVersionRegex content ! i"
  from assms have "M \<in> set (findAllAnchored matchCopilotHeader 0 True content)"
    by (simp add: M_def copilotVersionRegex_def)
  from findAllAnchored_member[OF _ this, of content]
  obtain p n gs where m: "matchCopilotHeader (drop p content) = Some (n, gs)"
    and M: "M = map (\<lambda>g. int (p + g)) (0 # n # gs)" by auto
  from matchCopilotHeader_date[OF m] obtain v
    where gs: "gs = [3, 3 + v, 3 + v + 3, 3 + v + 3 + 10]"
      and sh: "isDateShape (take 10 (drop (3 + v + 3) (drop p content)))" by blast
  have n: "nat (int p + (int v + 6)) = p + (v + 6)" by simp
  have "substr content (M ! 4) (M ! 5) = take 10 (drop (3 + v + 3) (drop p content))"
    unfolding M gs by (simp add: substr_def add.commute add.left_commute n)
  with sh show ?thesis by (simp add: M_def)
qed

text \<open>
  C10.  A date that has the shape of the pattern but is no calendar date, such as
  \<^verbatim>\<open>2025-13-40\<close>, makes \<^verbatim>\<open>time.Parse\<close> fail, and every date that
  the pattern of \<^verbatim>\<open>fetchCopilotChangelog\<close> captures has that shape.  The
  dated variant still returns one entry for each match, in order, and the entry of the
  match with the bad date is the entry of that match (its version and the bullets of its
  span) with the zero time as release time.  Likewise \<^verbatim>\<open>fetchGitHubReleases\<close>
  builds for the \<open>j\<close>-th release the \<open>j\<close>-th entry, and when
  \<^verbatim>\<open>published_at\<close> does not parse this is the entry of that release (version
  from its tag, sections and changes from its body) with the zero time.
\<close>

theorem bad_date_zero_time:
  "(wfMatches 2 content 0 (re content) \<and> i < length (re content) \<and>
    time_Parse_date (substr content (re content ! i ! 4) (re content ! i ! 5)) = Inl err \<longrightarrow>
      (\<exists>es. parseMarkdownChangelogWithDate content re = Inr es \<and>
            length es = length (re content) \<and>
            es ! i =
              \<lparr>Version = substr content (re content ! i ! 2) (re content ! i ! 3),
               ReleasedAt = zeroTime, Source = [], Sections = [],
               Changes = parseChanges (spanOf content (re content) i)\<rparr>)) \<and>
   (i < length (copilotVersionRegex content) \<and>
    \<not> dateValid (substr content (copilotVersionRegex content ! i ! 4)
                    (copilotVersionRegex content ! i ! 5)) \<longrightarrow>
      isDateShape (substr content (copilotVersionRegex content ! i ! 4)
                     (copilotVersionRegex content ! i ! 5)) \<and>
      (\<exists>e. time_Parse_date (substr content (copilotVersionRegex content ! i ! 4)
                               (copilotVersionRegex content ! i ! 5)) = Inl e) \<and>
      (\<exists>es. parseMarkdownChangelogWithDate content copilotVersionRegex = Inr es \<and>
            length es = length (copilotVersionRegex content) \<and>
            es ! i =
              \<lparr>Version = substr content (copilotVersionRegex content ! i ! 2)
                           (copilotVersionRegex content ! i ! 3),
               ReleasedAt = zeroTime, Source = [], Sections = [],
               Changes = parseChanges (spanOf content (copilotVersionRegex content) i)\<rparr>)) \<and>
   (isDateShape d \<longrightarrow>
      time_Parse_date d =
        (if dateMonth d \<le> 0 \<or> 12 < dateMonth d then Inl MonthOutOfRange
         else if dateDay d < 1 \<or> daysIn (dateMonth d) (dateYear d) < dateDay d
           then Inl DayOutOfRange
         else Inr \<lparr>year = dateYear d, month = dateMonth d, day = dateDay d, hour = 0,
                   minute = 0, second = 0, nanosecond = 0, zoneOffset = 0\<rparr>)) \<and>
   isDateShape ''2025-13-40'' \<and> \<not> dateValid ''2025-13-40'' \<and>
   time_Parse_date ''2025-13-40'' = Inl MonthOutOfRange \<and>
   parseMarkdownChangelogWithDate copilotBadDate copilotVersionRegex =
     Inr [\<lparr>Version = ''1.4.0'', ReleasedAt = zeroTime, Source = [], Sections = [],
           Changes = [''y'']\<rparr>,
          \<lparr>Version = ''1.3.0'', ReleasedAt = zeroTime, Source = [], Sections = [],
           Changes = [''z'']\<rparr>,
          \<lparr>Version = ''1.2.0'',
           ReleasedAt = \<lparr>year = 2024, month = 2, day = 29, hour = 0, minute = 0, second = 0,
                          nanosecond = 0, zoneOffset = 0\<rparr>,
           Source = [], Sections = [], Changes = [''w'']\<rparr>] \<and>
   (parseRFC3339 (PublishedAt rel) = Inl err' \<longrightarrow>
      releaseEntry parseRFC3339 rel =
        \<lparr>Version = TrimPrefix (TrimPrefix (TagName rel) ''v'') ''rust-v'',
         ReleasedAt = zeroTime, Source = [],
         Sections = fst (parseReleaseBody (Body rel)),
         Changes = snd (parseReleaseBody (Body rel))\<rparr>) \<and>
   (parseRFC3339 (PublishedAt rel) = Inr t \<longrightarrow>
      releaseEntry parseRFC3339 rel =
        \<lparr>Version = TrimPrefix (TrimPrefix (TagName rel) ''v'') ''rust-v'',
         ReleasedAt = t, Source = [],
         Sections = fst (parseReleaseBody (Body rel)),
         Changes = snd (parseReleaseBody (Body rel))\<rparr>) \<and>
   length (releaseEntries parseRFC3339 releases) = length releases \<and>
   (\<forall>j<length releases.
      releaseEntries parseRFC3339 releases ! j = releaseEntry parseRFC3339 (releases ! j))"
proof -
  have a: "wfMatches 2 c 0 (r c) \<and> i < length (r c) \<and>
    time_Parse_date (substr c (r c ! i ! 4) (r c ! i ! 5)) = Inl e \<longrightarrow>
      (\<exists>es. parseMarkdownChangelogWithDate c r = Inr es \<and>
            length es = length (r c) \<and>
            es ! i =
              \<lparr>Version = substr c (r c ! i ! 2) (r c ! i ! 3),
               ReleasedAt = zeroTime, Source = [], Sections = [],
               Changes = parseChanges (spanOf c (r c) i)\<rparr>)" for c r e
    using dated_nth[of c r i] by (auto simp: datedEntry_def dropError_def)
  have b: "i < length (copilotVersionRegex content) \<and>
    \<not> dateValid (substr content (copilotVersionRegex content ! i ! 4)
                    (copilotVersionRegex content ! i ! 5)) \<longrightarrow>
      isDateShape (substr content (copilotVersionRegex content ! i ! 4)
                     (copilotVersionRegex content ! i ! 5)) \<and>
      (\<exists>e. time_Parse_date (substr content (copilotVersionRegex content ! i ! 4)
                               (copilotVersionRegex content ! i ! 5)) = Inl e) \<and>
      (\<exists>es. parseMarkdownChangelogWithDate content copilotVersionRegex = Inr es \<and>
            length es = length (copilotVersionRegex content) \<and>
            es ! i =
              \<lparr>Version = substr content (copilotVersionRegex content ! i ! 2)
                           (copilotVersionRegex content ! i ! 3),
               ReleasedAt = zeroTime, Source = [], Sections = [],
               Changes = parseChanges (spanOf content (copilotVersionRegex content) i)\<rparr>)"
  proof
    define dt where "dt = substr content (copilotVersionRegex content ! i ! 4)
                    (copilotVersionRegex content ! i ! 5)"
    assume h: "i < length (copilotVersionRegex content) \<and>
      \<not> dateValid (substr content (copilotVersionRegex content ! i ! 4)
                    (copilotVersionRegex content ! i ! 5))"
    then have i: "i < length (copilotVersionRegex content)" and nv: "\<not> dateValid dt"
      by (simp_all add: dt_def)
    have sh: "isDateShape dt"
      unfolding dt_def by (rule copilot_date_shape[OF i])
    from nv have "\<exists>e. time_Parse_date dt = Inl e"
      unfolding time_Parse_date_shape[OF sh] by (auto simp: dateValid_def)
    then obtain e where e: "time_Parse_date dt = Inl e" by blast
    from a[of content copilotVersionRegex e] copilotVersionRegex_wf[of content] i e
    have "\<exists>es. parseMarkdownChangelogWithDate content copilotVersionRegex = Inr es \<and>
            length es = length (copilotVersionRegex content) \<and>
            es ! i =
              \<lparr>Version = substr content (copilotVersionRegex content ! i ! 2)
                           (copilotVersionRegex content ! i ! 3),
               ReleasedAt = zeroTime, Source = [], Sections = [],
               Changes = parseChanges (spanOf content (copilotVersionRegex content) i)\<rparr>"
      by (simp add: dt_def)
    with sh e show "isDateShape (substr content (copilotVersionRegex content ! i ! 4)
                     (copilotVersionRegex content ! i ! 5)) \<and>
      (\<exists>e. time_Parse_date (substr content (copilotVersionRegex content ! i ! 4)
                               (copilotVersionRegex content ! i ! 5)) = Inl e) \<and>
      (\<exists>es. parseMarkdownChangelogWithDate content copilotVersionRegex = Inr es \<and>
            length es = length (copilotVersionRegex content) \<and>
            es ! i =
              \<lparr>Version = substr content (copilotVersionRegex content ! i ! 2)
                           (copilotVersionRegex content ! i ! 3),
               ReleasedAt = zeroTime, Source = [], Sections = [],
               Changes = parseChanges (spanOf content (copilotVersionRegex content) i)\<rparr>)"
      unfolding dt_def by blast
  qed
  have c: "isDateShape d \<longrightarrow>
      time_Parse_date d =
        (if dateMonth d \<le> 0 \<or> 12 < dateMonth d then Inl MonthOutOfRange
         else if dateDay d < 1 \<or> daysIn (dateMonth d) (dateYear d) < dateDay d
           then Inl DayOutOfRange
         else Inr \<lparr>year = dateYear d, month = dateMonth d, day = dateDay d, hour = 0,
                   minute = 0, second = 0, nanosecond = 0, zoneOffset = 0\<rparr>)"
    using time_Parse_date_shape[of d] by blast
  have d: "isDateShape ''2025-13-40''" "\<not> dateValid ''2025-13-40''"
    "time_Parse_date ''2025-13-40'' = Inl MonthOutOfRange"
    "parseMarkdownChangelogWithDate copilotBadDate copilotVersionRegex =
     Inr [\<lparr>Version = ''1.4.0'', ReleasedAt = zeroTime, Source = [], Sections = [],
           Changes = [''y'']\<rparr>,
          \<lparr>Version = ''1.3.0'', ReleasedAt = zeroTime, Source = [], Sections = [],
           Changes = [''z'']\<rparr>,
          \<lparr>Version = ''1.2.0'',
           ReleasedAt = \<lparr>year = 2024, month = 2, day = 29, hour = 0, minute = 0, second = 0,
                          nanosecond = 0, zoneOffset = 0\<rparr>,
           Source = [], Sections = [], Changes = [''w'']\<rparr>]"
    by code_simp+
  have e: "parseRFC3339 (PublishedAt rel) = Inl err' \<longrightarrow>
      releaseEntry parseRFC3339 rel =
        \<lparr>Version = TrimPrefix (TrimPrefix (TagName rel) ''v'') ''rust-v'',
         ReleasedAt = zeroTime, Source = [],
         Sections = fst (parseReleaseBody (Body rel)),
         Changes = snd (parseReleaseBody (Body rel))\<rparr>"
    by (simp add: releaseEntry_def normalizeVersion_def Let_def dropError_def
        split: prod.splits)
  have f: "parseRFC3339 (PublishedAt rel) = Inr t \<longrightarrow>
      releaseEntry parseRFC3339 rel =
        \<lparr>Version = TrimPrefix (TrimPrefix (TagName rel) ''v'') ''rust-v'',
         ReleasedAt = t, Source = [],
         Sections = fst (parseReleaseBody (Body rel)),
         Changes = snd (parseReleaseBody (Body rel))\<rparr>"
    by (simp add: releaseEntry_def normalizeVersion_def Let_def dropError_def
        split: prod.splits)
  have g: "length (releaseEntries parseRFC3339 releases) = length releases"
    "\<forall>j<length releases.
      releaseEntries parseRFC3339 releases ! j = releaseEntry parseRFC3339 (releases ! j)"
    by (simp_all add: releaseEntries_map)
  from a[of content re err] b c d e f g show ?thesis by blast
qed

theorem bad_date_zero_time_witness:
  "copilotVersionRegex copilotBadDate =
     [[0, 21, 3, 8, 11, 21], [26, 47, 29, 34, 37, 47], [52, 73, 55, 60, 63, 73]] \<and>
   wfMatches 2 copilotBadDate 0 (copilotVersionRegex copilotBadDate) \<and>
   substr copilotBadDate 11 21 = ''2025-13-40'' \<and>
   time_Parse_date ''2025-13-40'' = Inl MonthOutOfRange \<and>
   substr copilotBadDate 37 47 = ''2025-02-30'' \<and>
   isDateShape ''2025-02-30'' \<and> \<not> dateValid ''2025-02-30'' \<and>
   time_Parse_date ''2025-02-30'' = Inl DayOutOfRange \<and>
   (\<exists>es. parseMarkdownChangelogWithDate copilotBadDate copilotVersionRegex = Inr es \<and>
         length es = 3 \<and>
         es ! 0 = \<lparr>Version = ''1.4.0'', ReleasedAt = zeroTime, Source = [], Sections = [],
                   Changes = [''y'']\<rparr> \<and>
         es ! 1 = \<lparr>Version = ''1.3.0'', ReleasedAt = zeroTime, Source = [], Sections = [],
                   Changes = [''z'']\<rparr>) \<and>
   exampleRFC3339 (PublishedAt (exampleReleases ! 0)) = Inl BadValue \<and>
   releaseEntries exampleRFC3339 exampleReleases =
     [\<lparr>Version = ''2.0.0'', ReleasedAt = zeroTime, Source = [],
       Sections = [\<lparr>Name = ''Fixes'', SectionChanges = [''a'']\<rparr>], Changes = []\<rparr>,
      \<lparr>Version = ''1.9.0'',
       ReleasedAt = \<lparr>year = 2025, month = 3, day = 10, hour = 12, minute = 30, second = 0,
                      nanosecond = 0, zoneOffset = 0\<rparr>,
       Source = [], Sections = [], Changes = [''b'']\<rparr>] \<and>
   releaseEntries exampleRFC3339 exampleReleases ! 0 =
     releaseEntry exampleRFC3339 (exampleReleases ! 0) \<and>
   releaseEntry exampleRFC3339 (exampleReleases ! 0) =
     \<lparr>Version = ''2.0.0'', ReleasedAt = zeroTime, Source = [],
      Sections = [\<lparr>Name = ''Fixes'', SectionChanges = [''a'']\<rparr>], Changes = []\<rparr>"
proof -
  have m: "copilotVersionRegex copilotBadDate =
     [[0, 21, 3, 8, 11, 21], [26, 47, 29, 34, 37, 47], [52, 73, 55, 60, 63, 73]]"
    by code_simp
  have w: "wfMatches 2 copilotBadDate 0 (copilotVersionRegex copilotBadDate)"
    unfolding m by code_simp
  have s0: "substr copilotBadDate 11 21 = ''2025-13-40''"
    and t0: "time_Parse_date ''2025-13-40'' = Inl MonthOutOfRange"
    and s1: "substr copilotBadDate 37 47 = ''2025-02-30''"
    and sh: "isDateShape ''2025-02-30''" and nv: "\<not> dateValid ''2025-02-30''"
    and t1: "time_Parse_date ''2025-02-30'' = Inl DayOutOfRange"
    by code_simp+
  have v0: "substr copilotBadDate 3 8 = ''1.4.0''"
    and v1: "substr copilotBadDate 29 34 = ''1.3.0''"
    and c0: "parseChanges (spanOf copilotBadDate
        [[0, 21, 3, 8, 11, 21], [26, 47, 29, 34, 37, 47], [52, 73, 55, 60, 63, 73]] 0) = [''y'']"
    and c1: "parseChanges (spanOf copilotBadDate
        [[0, 21, 3, 8, 11, 21], [26, 47, 29, 34, 37, 47], [52, 73, 55, 60, 63, 73]] 1) = [''z'']"
    by code_simp+
  have p: "exampleRFC3339 (PublishedAt (exampleReleases ! 0)) = Inl BadValue"
    and re: "releaseEntries exampleRFC3339 exampleReleases =
     [\<lparr>Version = ''2.0.0'', ReleasedAt = zeroTime, Source = [],
       Sections = [\<lparr>Name = ''Fixes'', SectionChanges = [''a'']\<rparr>], Changes = []\<rparr>,
      \<lparr>Version = ''1.9.0'',
       ReleasedAt = \<lparr>year = 2025, month = 3, day = 10, hour = 12, minute = 30, second = 0,
                      nanosecond = 0, zoneOffset = 0\<rparr>,
       Source = [], Sections = [], Changes = [''b'']\<rparr>]"
    and l: "length exampleReleases = 2"
    and tag: "TrimPrefix (TrimPrefix (TagName (exampleReleases ! 0)) ''v'') ''rust-v'' = ''2.0.0''"
    and bd: "parseReleaseBody (Body (exampleReleases ! 0)) =
        ([\<lparr>Name = ''Fixes'', SectionChanges = [''a'']\<rparr>], [])"
    by code_simp+
  note th0 = bad_date_zero_time[of copilotBadDate copilotVersionRegex 0 MonthOutOfRange
      "''2025-02-30''" exampleRFC3339 "exampleReleases ! 0" BadValue _ exampleReleases]
  note th1 = bad_date_zero_time[of copilotBadDate copilotVersionRegex 1 DayOutOfRange
      "''2025-02-30''" exampleRFC3339 "exampleReleases ! 0" BadValue _ exampleReleases]
  from th0 w s0 t0 have a0:
    "\<exists>es. parseMarkdownChangelogWithDate copilotBadDate copilotVersionRegex = Inr es \<and>
         length es = 3 \<and>
         es ! 0 = \<lparr>Version = ''1.4.0'', ReleasedAt = zeroTime, Source = [], Sections = [],
                   Changes = [''y'']\<rparr>"
    by (simp add: m v0 c0)
  from th1 nv have a1:
    "\<exists>es. parseMarkdownChangelogWithDate copilotBadDate copilotVersionRegex = Inr es \<and>
         length es = 3 \<and>
         es ! 1 = \<lparr>Version = ''1.3.0'', ReleasedAt = zeroTime, Source = [], Sections = [],
                   Changes = [''z'']\<rparr>"
    by (simp add: m s1 v1 c1)
  from a0 a1 have a:
    "\<exists>es. parseMarkdownChangelogWithDate copilotBadDate copilotVersionRegex = Inr es \<and>
         length es = 3 \<and>
         es ! 0 = \<lparr>Version = ''1.4.0'', ReleasedAt = zeroTime, Source = [], Sections = [],
                   Changes = [''y'']\<rparr> \<and>
         es ! 1 = \<lparr>Version = ''1.3.0'', ReleasedAt = zeroTime, Source = [], Sections = [],
                   Changes = [''z'']\<rparr>"
    by auto
  from th0 p have b: "releaseEntry exampleRFC3339 (exampleReleases ! 0) =
     \<lparr>Version = ''2.0.0'', ReleasedAt = zeroTime, Source = [],
      Sections = [\<lparr>Name = ''Fixes'', SectionChanges = [''a'']\<rparr>], Changes = []\<rparr>"
    by (simp add: tag bd)
  from th0 l have c: "releaseEntries exampleRFC3339 exampleReleases ! 0 =
     releaseEntry exampleRFC3339 (exampleReleases ! 0)"
    by simp
  from m w s0 t0 s1 sh nv t1 a p re c b show ?thesis by blast
qed

end
